theory Spec2Isabelle
  imports Main
begin

section \<open>JavaScript string primitives used by the backup engine\<close>

text \<open>
  Strings are lists of characters.  The functions below are the fragments of the
  JavaScript string library the source calls: \<^verbatim>\<open>startsWith\<close>, \<^verbatim>\<open>endsWith\<close>,
  \<^verbatim>\<open>includes\<close>, \<^verbatim>\<open>split\<close> with a one-character separator, \<^verbatim>\<open>join\<close>,
  \<^verbatim>\<open>replace\<close> with a string pattern (first occurrence only), \<^verbatim>\<open>trim\<close> and
  \<^verbatim>\<open>toLowerCase\<close> (both on ASCII).
\<close>

definition startsWith :: "string \<Rightarrow> string \<Rightarrow> bool" where
  "startsWith s pat = (take (length pat) s = pat)"

definition endsWith :: "string \<Rightarrow> string \<Rightarrow> bool" where
  "endsWith s pat = (length pat \<le> length s \<and> drop (length s - length pat) s = pat)"

fun js_includes :: "string \<Rightarrow> string \<Rightarrow> bool" where
  "js_includes [] pat = (pat = [])"
| "js_includes (c # cs) pat = (startsWith (c # cs) pat \<or> js_includes cs pat)"

fun split_on :: "char \<Rightarrow> string \<Rightarrow> string list" where
  "split_on sep [] = [[]]"
| "split_on sep (c # cs) =
     (if c = sep then [] # split_on sep cs
      else (case split_on sep cs of
              [] \<Rightarrow> [[c]]
            | w # ws \<Rightarrow> (c # w) # ws))"

fun join_with :: "string \<Rightarrow> string list \<Rightarrow> string" where
  "join_with sep [] = []"
| "join_with sep [w] = w"
| "join_with sep (w # ws) = w @ sep @ join_with sep ws"

fun replace_first :: "string \<Rightarrow> string \<Rightarrow> string \<Rightarrow> string" where
  "replace_first [] pat rep = (if pat = [] then rep else [])"
| "replace_first (c # cs) pat rep =
     (if startsWith (c # cs) pat then rep @ drop (length pat) (c # cs)
      else c # replace_first cs pat rep)"

definition replace_all_char :: "string \<Rightarrow> (char \<Rightarrow> bool) \<Rightarrow> char \<Rightarrow> string" where
  "replace_all_char s p r = map (\<lambda>c. if p c then r else c) s"

definition is_space :: "char \<Rightarrow> bool" where
  "is_space c = (c \<in> {CHR 0x20, CHR 0x09, CHR 0x0A, CHR 0x0B, CHR 0x0C, CHR 0x0D})"

definition trim :: "string \<Rightarrow> string" where
  "trim s = rev (dropWhile is_space (rev (dropWhile is_space s)))"

definition lower_char :: "char \<Rightarrow> char" where
  "lower_char c =
     (case map_of (zip ''ABCDEFGHIJKLMNOPQRSTUVWXYZ'' ''abcdefghijklmnopqrstuvwxyz'') c of
        None \<Rightarrow> c
      | Some l \<Rightarrow> l)"

definition toLowerCase :: "string \<Rightarrow> string" where
  "toLowerCase s = map lower_char s"

text \<open>
  JavaScript's \<^verbatim>\<open>a || b\<close> on optional strings: the empty string and
  \<^verbatim>\<open>undefined\<close>/\<^verbatim>\<open>null\<close> are both falsy.
\<close>

definition truthy :: "string option \<Rightarrow> bool" where
  "truthy v = (case v of None \<Rightarrow> False | Some s \<Rightarrow> s \<noteq> [])"

definition or_else :: "string option \<Rightarrow> string option \<Rightarrow> string option" where
  "or_else a b = (if truthy a then a else b)"

definition or_default :: "string option \<Rightarrow> string \<Rightarrow> string" where
  "or_default a d = (case a of None \<Rightarrow> d | Some s \<Rightarrow> if s = [] then d else s)"


section \<open>Compose manifest parser (\<^verbatim>\<open>parseStackYaml\<close>)\<close>

text \<open>
  The YAML library is external; the model starts from the loaded document.  Only the
  keys the parser reads are represented.  A volume is a string or an object with an
  optional \<^verbatim>\<open>target\<close>; the environment is an array of strings or a map.
\<close>

datatype yaml_volume = VolString string | VolObject "string option"

datatype yaml_environment = EnvArray "string list" | EnvMap "(string \<times> string) list"

record yaml_service =
  svc_image :: "string option"
  svc_volumes :: "yaml_volume list"
  svc_environment :: "yaml_environment option"

record yaml_doc =
  doc_name :: "string option"
  doc_services :: "(string \<times> yaml_service) list"

record ParsedService =
  ps_name :: string
  ps_image :: string
  ps_volumes :: "string list"
  ps_env :: "string \<rightharpoonup> string"

record ParsedStack =
  pst_name :: string
  pst_services :: "(string \<times> ParsedService) list"

text \<open>
  \<^verbatim>\<open>const parts = v.split(':'); if (parts.length > 1) volumes.push(parts[1]); else volumes.push(parts[0]);\<close>
  and \<^verbatim>\<open>else if (typeof v === 'object' && v.target) volumes.push(v.target)\<close>.
\<close>

definition parse_volume :: "yaml_volume \<Rightarrow> string list" where
  "parse_volume v =
     (case v of
        VolString s \<Rightarrow>
          (case split_on CHR '':'' s of
             a # b # _ \<Rightarrow> [b]
           | [a] \<Rightarrow> [a]
           | [] \<Rightarrow> [])
      | VolObject t \<Rightarrow> (if truthy t then [the t] else []))"

text \<open>
  \<^verbatim>\<open>const [k, v] = e.split('='); if (k) env[k] = v || '';\<close>
  The destructuring takes the first two pieces of the split and drops the rest.
\<close>

definition parse_env_entry :: "(string \<rightharpoonup> string) \<Rightarrow> string \<Rightarrow> (string \<rightharpoonup> string)" where
  "parse_env_entry env e =
     (case split_on CHR ''='' e of
        [] \<Rightarrow> env
      | [k] \<Rightarrow> (if k \<noteq> [] then env(k \<mapsto> []) else env)
      | k # v # _ \<Rightarrow> (if k \<noteq> [] then env(k \<mapsto> v) else env))"

definition parse_environment :: "yaml_environment option \<Rightarrow> (string \<rightharpoonup> string)" where
  "parse_environment environment =
     (case environment of
        None \<Rightarrow> Map.empty
      | Some (EnvArray es) \<Rightarrow> foldl parse_env_entry Map.empty es
      | Some (EnvMap kvs) \<Rightarrow> Map.empty ++ map_of (rev kvs))"

definition parse_service :: "string \<times> yaml_service \<Rightarrow> string \<times> ParsedService" where
  "parse_service entry =
     (case entry of (serviceName, serviceConfig) \<Rightarrow>
        (serviceName,
         \<lparr> ps_name = serviceName,
           ps_image = or_default (svc_image serviceConfig) [],
           ps_volumes = concat (map parse_volume (svc_volumes serviceConfig)),
           ps_env = parse_environment (svc_environment serviceConfig) \<rparr>))"

text \<open>
  A document that fails to load, or loads to \<^verbatim>\<open>null\<close>, is \<open>None\<close>: both end in
  the \<^verbatim>\<open>catch\<close> that throws \<^verbatim>\<open>Invalid Docker Compose YAML format\<close>.
\<close>

definition parseStackYaml :: "yaml_doc option \<Rightarrow> string + ParsedStack" where
  "parseStackYaml doc =
     (case doc of
        None \<Rightarrow> Inl ''Invalid Docker Compose YAML format''
      | Some d \<Rightarrow>
          Inr \<lparr> pst_name = or_default (doc_name d) ''manual-stack'',
                pst_services = map parse_service (doc_services d) \<rparr>)"


section \<open>History store (\<^verbatim>\<open>lib/storage.ts\<close>)\<close>

datatype HistoryStatus = HSuccess | HFailed

datatype Destination = DLocal | DTelegram | DCloud

record HistoryEntry =
  h_id :: string
  h_date :: string
  h_containerName :: string
  h_status :: HistoryStatus
  h_destination :: Destination
  h_message :: string
  h_size :: "string option"

text \<open>
  \<^verbatim>\<open>history.json\<close> is \<open>None\<close> when the file is missing or does not parse;
  \<^verbatim>\<open>getHistory\<close> then returns the empty array.
\<close>

definition read_history :: "HistoryEntry list option \<Rightarrow> HistoryEntry list" where
  "read_history f = (case f of None \<Rightarrow> [] | Some h \<Rightarrow> h)"

text \<open>
  \<^verbatim>\<open>history.unshift(entry); if (history.length > 200) history.pop();\<close>
\<close>

definition unshift_bounded :: "HistoryEntry \<Rightarrow> HistoryEntry list \<Rightarrow> HistoryEntry list" where
  "unshift_bounded entry history =
     (let history' = entry # history
      in if length history' > 200 then butlast history' else history')"

definition sample_entry :: "string \<Rightarrow> HistoryEntry" where
  "sample_entry ident =
     \<lparr> h_id = ident, h_date = ''2024-01-01T00:00:00.000Z'', h_containerName = ''nginx-1_1.zip'',
       h_status = HSuccess, h_destination = DLocal, h_message = ''Saved to local disk'',
       h_size = Some ''1.00 MB'' \<rparr>"

definition write_history :: "HistoryEntry \<Rightarrow> HistoryEntry list option \<Rightarrow> HistoryEntry list option" where
  "write_history entry f = Some (unshift_bounded entry (read_history f))"


section \<open>Port probing (\<^verbatim>\<open>isPortAvailable\<close>, \<^verbatim>\<open>findAvailablePort\<close>)\<close>

text \<open>
  The host answers a probe from two sources: the ports some process listens on (the TCP
  bind fails there) and the public ports of the containers the engine lists
  (\<open>None\<close> when the listing throws, which the source catches and ignores).
  Node refuses to bind a port above 65535 with a thrown range error, which rejects the
  probe.
\<close>

record host_ports =
  listening :: "nat list"
  published :: "nat list option"

definition isPortAvailable :: "host_ports \<Rightarrow> nat \<Rightarrow> string + bool" where
  "isPortAvailable h port =
     (if port > 65535 then Inl ''ERR_SOCKET_BAD_PORT''
      else if port \<in> set (listening h) then Inr False
      else (case published h of
              None \<Rightarrow> Inr True
            | Some ps \<Rightarrow> Inr (port \<notin> set ps)))"

text \<open>
  \<^verbatim>\<open>let port = startPort; while (!(await isPortAvailable(port)) && port < 65535) port++; return port;\<close>
  The second component lists the ports handed to \<^verbatim>\<open>isPortAvailable\<close>, in call order.
\<close>

function findAvailablePort :: "host_ports \<Rightarrow> nat \<Rightarrow> (string + nat) \<times> nat list" where
  "findAvailablePort h port =
     (case isPortAvailable h port of
        Inl e \<Rightarrow> (Inl e, [port])
      | Inr a \<Rightarrow>
          (if \<not> a \<and> port < 65535
           then (case findAvailablePort h (port + 1) of (r, ps) \<Rightarrow> (r, port # ps))
           else (Inr port, [port])))"
  by pat_completeness auto
termination
  by (relation "measure (\<lambda>(h, port). 65535 - port)") auto

declare findAvailablePort.simps [simp del]


section \<open>Tar entry names: encoding on backup, decoding on restore\<close>

text \<open>
  Backup, in \<^verbatim>\<open>archiveContainerInternal\<close>:
  \<^verbatim>\<open>volPath.replace(/[\/\\]/g, '_').replace(/^_/, '') + '.tar'\<close>, appended under
  \<^verbatim>\<open>path.join(prefix, 'volumes', safeName)\<close>.
\<close>

definition is_sep :: "char \<Rightarrow> bool" where
  "is_sep c = (c = CHR ''/'' \<or> c = CHR 0x5C)"

definition strip_leading_underscore :: "string \<Rightarrow> string" where
  "strip_leading_underscore s =
     (case s of [] \<Rightarrow> [] | c # cs \<Rightarrow> if c = CHR ''_'' then cs else c # cs)"

definition safeName :: "string \<Rightarrow> string" where
  "safeName volPath =
     strip_leading_underscore (replace_all_char volPath is_sep CHR ''_'') @ ''.tar''"

text \<open>
  \<^verbatim>\<open>path.join\<close> on the segments the source passes: an empty prefix contributes
  nothing, otherwise the segments are joined by one slash.  The prefixes in use are
  \<^verbatim>\<open>''\<close> and \<^verbatim>\<open>services/<container name>\<close>, which need no normalisation.
\<close>

definition path_join :: "string \<Rightarrow> string \<Rightarrow> string" where
  "path_join prefix rest = (if prefix = [] then rest else prefix @ ''/'' @ rest)"

definition volume_entry_name :: "string \<Rightarrow> string \<Rightarrow> string" where
  "volume_entry_name prefix volPath = path_join prefix (''volumes/'' @ safeName volPath)"

text \<open>
  Stack restore, in \<^verbatim>\<open>restoreVolumesInternal\<close>:
  \<^verbatim>\<open>rawName = entry.entryName.replace(volumesPrefix, '').replace('.tar', '')\<close>,
  \<^verbatim>\<open>originalPath = rawName.replace(/_/g, '/')\<close>, then a slash is put in front
  unless one is there.
\<close>

definition volumesPrefix :: "string \<Rightarrow> string" where
  "volumesPrefix prefix = path_join prefix ''volumes/''"

definition ensure_leading_slash :: "string \<Rightarrow> string" where
  "ensure_leading_slash s = (if startsWith s ''/'' then s else ''/'' @ s)"

definition decode_stack :: "string \<Rightarrow> string \<Rightarrow> string" where
  "decode_stack prefix entryName =
     (let rawName = replace_first (replace_first entryName (volumesPrefix prefix) []) ''.tar'' [];
          originalPath = replace_all_char rawName (\<lambda>c. c = CHR ''_'') CHR ''/''
      in ensure_leading_slash originalPath)"

text \<open>
  Clone restore, in \<^verbatim>\<open>restoreToNewContainer\<close>, decodes the whole entry name:
  \<^verbatim>\<open>entry.entryName.replace(/_/g, '/').replace('.tar', '')\<close>.
\<close>

definition decode_clone :: "string \<Rightarrow> string" where
  "decode_clone entryName =
     ensure_leading_slash
       (replace_first (replace_all_char entryName (\<lambda>c. c = CHR ''_'') CHR ''/'') ''.tar'' [])"


section \<open>Job status board (\<^verbatim>\<open>lib/queue.ts\<close>)\<close>

datatype JobStatus = Pending | Processing | Uploading | Completed | Failed

record JobState =
  status :: JobStatus
  message :: "string option"
  lastUpdated :: nat


section \<open>Stored stack definitions, archives and the state of the service\<close>

record StackConfig =
  sc_name :: string
  sc_yaml :: string
  sc_envFile :: "string option"
  sc_envVars :: "(string \<times> string) list option"
  sc_services :: "(string \<times> ParsedService) list"

text \<open>
  The JSON documents written into an archive are kept structured; of the engine's inspect
  record only the parts the backup reads are represented (ports, host configuration,
  command and network settings are copied through by the source and are left out).
\<close>

record config_data =
  cfg_name :: string
  cfg_image :: string
  cfg_env :: "string list"
  cfg_appType :: string
  cfg_backupPaths :: "string list"
  cfg_timestamp :: string

record stack_metadata =
  sm_stackName :: string
  sm_timestamp :: string
  sm_containers :: "(string \<times> string \<times> string) list"

datatype entry_content = Bytes string | ConfigJson config_data | StackMetadataJson stack_metadata

type_synonym zip_entry = "string \<times> entry_content"

text \<open>
  A file in the backup directory holds the entries appended to its archive, in the order
  of the \<^verbatim>\<open>archive.append\<close> calls; it is \<open>Finalized\<close> once \<^verbatim>\<open>archive.finalize()\<close>
  has run and the output stream has closed, and \<open>Unfinished\<close> before.
\<close>

datatype artifact_file = Unfinished "zip_entry list" | Finalized "zip_entry list"

fun entries_of :: "artifact_file \<Rightarrow> zip_entry list" where
  "entries_of (Unfinished es) = es"
| "entries_of (Finalized es) = es"

text \<open>
  A task of the queue: the closure \<^verbatim>\<open>async () => { await processBackup(id, customPaths) }\<close>
  that \<^verbatim>\<open>triggerBackup\<close> adds, with the container id and the custom paths it holds.
\<close>

datatype task = BackupTask string "string list option"

text \<open>
  \<open>globalState\<close> is the status board.  It is kept as the list of the writes made by
  \<^verbatim>\<open>updateJobStatus\<close>, newest first; the record an observer reads is
  \<open>map_of (globalState w)\<close>, and the boards that existed earlier are the tails of the
  list.  \<open>backupQueue\<close> holds the tasks waiting in the concurrency-1 queue, oldest first.
  \<open>clock\<close> is what \<^verbatim>\<open>Date.now()\<close> returns; it does not advance inside the model.
\<close>

record world =
  globalState :: "(string \<times> JobState) list"
  backupQueue :: "task list"
  history_file :: "HistoryEntry list option"
  stacks_file :: "string \<rightharpoonup> StackConfig"
  backups :: "string \<rightharpoonup> artifact_file"
  clock :: nat


section \<open>External collaborators\<close>

text \<open>
  The container engine, the process environment, the upload endpoint and two formatting
  routines are external.  Their answers are parameters of the model:
  \<^item> \<open>inspect\<close>: \<^verbatim>\<open>container.inspect()\<close>, an error message or the container's record;
  \<^item> \<open>exec_dump\<close>: the outcome of running a command in a container with stdout written
    to the temporary dump file and stderr piped to the process's own stderr;
  \<^item> \<open>getArchive\<close>: \<^verbatim>\<open>container.getArchive({path})\<close>, an error or the tar stream;
  \<^item> \<open>listContainers\<close>: \<^verbatim>\<open>docker.listContainers({all: true})\<close>;
  \<^item> \<open>readFile\<close>: a text file on disk, \<open>None\<close> when it does not exist;
  \<^item> \<open>sendDocument\<close>: the outcome of the POST to the Telegram endpoint;
  \<^item> \<open>toISOString\<close> and \<open>size_MB\<close>: the renderings of a time stamp and of the size of
    a written archive (\<^verbatim>\<open>(size / 1024 / 1024).toFixed(2) + ' MB'\<close>).
\<close>

record container_info =
  info_Name :: string
  info_Image :: string
  info_Env :: "string list"
  info_Labels :: "string \<rightharpoonup> string"

record container_summary =
  c_Id :: string
  c_Name :: string
  c_Labels :: "string \<rightharpoonup> string"

datatype exec_outcome = Exec_rejected string | Exec_timeout | Exec_done string string

datatype fetch_outcome = Fetch_throws string | Fetch_response bool string string

record externals =
  inspect :: "string \<Rightarrow> string + container_info"
  exec_dump :: "string \<Rightarrow> string list \<Rightarrow> exec_outcome"
  getArchive :: "string \<Rightarrow> string \<Rightarrow> string + string"
  listContainers :: "string + container_summary list"
  readFile :: "string \<Rightarrow> (string + string) option"
  TELEGRAM_TOKEN :: "string option"
  CHAT_ID :: "string option"
  sendDocument :: "string \<Rightarrow> fetch_outcome"
  toISOString :: "nat \<Rightarrow> string"
  size_MB :: "zip_entry list \<Rightarrow> string"


text \<open>
  The same collaborators, except that every dump command that runs to its end writes
  \<open>f err\<close> to stderr where it wrote \<open>err\<close>.
\<close>

definition with_stderr :: "(string \<Rightarrow> string) \<Rightarrow> externals \<Rightarrow> externals" where
  "with_stderr f ext =
     ext\<lparr>exec_dump := \<lambda>cid cmd.
            (case exec_dump ext cid cmd of
               Exec_done out err \<Rightarrow> Exec_done out (f err)
             | r \<Rightarrow> r)\<rparr>"


section \<open>Status and history writes\<close>

definition updateJobStatus :: "string \<Rightarrow> JobStatus \<Rightarrow> string \<Rightarrow> world \<Rightarrow> world" where
  "updateJobStatus jid st msg w =
     w\<lparr>globalState :=
         (jid, \<lparr>status = st, message = Some msg, lastUpdated = clock w\<rparr>) # globalState w\<rparr>"

definition getJobStatus :: "world \<Rightarrow> string \<Rightarrow> JobState option" where
  "getJobStatus w jid = map_of (globalState w) jid"

definition getHistory :: "world \<Rightarrow> HistoryEntry list" where
  "getHistory w = read_history (history_file w)"

definition addHistoryEntry :: "HistoryEntry \<Rightarrow> world \<Rightarrow> world" where
  "addHistoryEntry entry w = w\<lparr>history_file := write_history entry (history_file w)\<rparr>"

text \<open>The job ids whose newest record on a board says \<open>Processing\<close>.\<close>

definition processing_ids :: "(string \<times> JobState) list \<Rightarrow> string list" where
  "processing_ids board =
     filter (\<lambda>jid. map_option status (map_of board jid) = Some Processing)
            (remdups (map fst board))"

text \<open>Decimal rendering of a number, as \<^verbatim>\<open>String(n)\<close>.\<close>

function show_nat :: "nat \<Rightarrow> string" where
  "show_nat n =
     (if n < 10 then [''0123456789'' ! n]
      else show_nat (n div 10) @ [''0123456789'' ! (n mod 10)])"
  by pat_completeness auto
termination
  by (relation "measure id") auto

declare show_nat.simps [simp del]

definition history_entry ::
  "externals \<Rightarrow> world \<Rightarrow> string \<Rightarrow> HistoryStatus \<Rightarrow> Destination \<Rightarrow> string \<Rightarrow> string option
     \<Rightarrow> HistoryEntry" where
  "history_entry ext w containerName st dest msg sz =
     \<lparr> h_id = show_nat (clock w), h_date = toISOString ext (clock w),
       h_containerName = containerName, h_status = st, h_destination = dest,
       h_message = msg, h_size = sz \<rparr>"


section \<open>Application type and dump command\<close>

definition patterns :: "(string \<times> string) list" where
  "patterns =
     [(''n8n'', ''n8n''), (''metabase'', ''metabase''), (''nocodb'', ''nocodb''),
      (''baserow'', ''baserow''), (''postgres'', ''postgres''), (''timescale'', ''postgres''),
      (''mysql'', ''mysql''), (''mariadb'', ''mysql''), (''redis'', ''redis''),
      (''wordpress'', ''wordpress''), (''portainer'', ''portainer''),
      (''nginx-proxy-manager'', ''nginx-proxy-manager''), (''imgproxy'', ''imgproxy''),
      (''ghost'', ''ghost''), (''uptime-kuma'', ''uptime-kuma''),
      (''activepieces'', ''activepieces''), (''supabase'', ''supabase''),
      (''rabbitmq'', ''rabbitmq''), (''mongodb'', ''mongodb'')]"

fun first_match :: "(string \<times> string) list \<Rightarrow> string \<Rightarrow> string option" where
  "first_match [] s = None"
| "first_match ((pat, ty) # rest) s = (if js_includes s pat then Some ty else first_match rest s)"

definition detectAppType :: "string \<Rightarrow> (string \<rightharpoonup> string) \<Rightarrow> string" where
  "detectAppType img labels =
     (let serviceName = or_else (labels ''com.docker.compose.service'')
                                (labels ''org.opencontainers.image.title'');
          byLabel = (if truthy serviceName
                     then first_match patterns (toLowerCase (the serviceName)) else None)
      in case byLabel of
           Some ty \<Rightarrow> ty
         | None \<Rightarrow> (case first_match patterns (toLowerCase img) of
                      Some ty \<Rightarrow> ty
                    | None \<Rightarrow> ''generic''))"

definition is_db_image :: "string \<Rightarrow> bool" where
  "is_db_image img =
     (js_includes img ''postgres'' \<or> js_includes img ''timescale''
      \<or> js_includes img ''mysql'' \<or> js_includes img ''mariadb'')"

text \<open>
  \<^verbatim>\<open>info.Config.Env?.find(e => e.startsWith(key + '='))\<close>, then
  \<^verbatim>\<open>envStr.split('=').slice(1).join('=')\<close>.
\<close>

definition getEnv :: "string list \<Rightarrow> string \<Rightarrow> string option" where
  "getEnv env key =
     (case find (\<lambda>e. startsWith e (key @ ''='')) env of
        None \<Rightarrow> None
      | Some envStr \<Rightarrow> Some (join_with ''='' (tl (split_on CHR ''='' envStr))))"

text \<open>\<^verbatim>\<open>pwd.replace(/'/g, "'\\''")\<close>: each single quote becomes quote, backslash, quote, quote.\<close>

definition shell_escape :: "string \<Rightarrow> string" where
  "shell_escape s =
     concat (map (\<lambda>c. if c = CHR 0x27 then [CHR 0x27, CHR 0x5C, CHR 0x27, CHR 0x27] else [c]) s)"

definition dump_cmd :: "string \<Rightarrow> string list \<Rightarrow> string list" where
  "dump_cmd img env =
     (if js_includes img ''postgres'' \<or> js_includes img ''timescale''
      then (let pgUser = or_default (getEnv env ''POSTGRES_USER'') ''postgres'';
                pgPwd = or_else (getEnv env ''POSTGRES_PASSWORD'') (getEnv env ''POSTGRES_PASS'')
            in if truthy pgPwd
               then [''sh'', ''-c'',
                     ''PGPASSWORD='' @ [CHR 0x27] @ shell_escape (the pgPwd) @ [CHR 0x27]
                       @ '' pg_dumpall -U '' @ [CHR 0x27] @ pgUser @ [CHR 0x27]
                       @ '' -w --clean --if-exists'']
               else [''sh'', ''-c'',
                     ''pg_dumpall -U '' @ [CHR 0x27] @ pgUser @ [CHR 0x27]
                       @ '' -w --clean --if-exists''])
      else (let mysqlPwd = getEnv env ''MYSQL_ROOT_PASSWORD''
            in if truthy mysqlPwd
               then [''sh'', ''-c'',
                     ''mysqldump -u root -p'' @ [CHR 0x22] @ the mysqlPwd @ [CHR 0x22]
                       @ '' --all-databases'']
               else [''sh'', ''-c'', ''mysqldump -u root --all-databases --skip-lock-tables'']))"

section \<open>Archiving one container (\<^verbatim>\<open>archiveContainerInternal\<close>)\<close>

text \<open>
  \<^verbatim>\<open>pathsToBackup\<close> is a JavaScript \<^verbatim>\<open>Set\<close>: it keeps the first insertion of each
  element and iterates in insertion order.
\<close>

definition set_add :: "string list \<Rightarrow> string \<Rightarrow> string list" where
  "set_add xs x = (if x \<in> set xs then xs else xs @ [x])"

definition add_trimmed :: "string list \<Rightarrow> string \<Rightarrow> string list" where
  "add_trimmed acc v = (if trim v \<noteq> [] then set_add acc (trim v) else acc)"

text \<open>
  The paths to capture: the volume destinations of the container's service in the stored
  definition of its compose project, then the custom paths, all trimmed.
\<close>

definition backup_paths :: "world \<Rightarrow> container_info \<Rightarrow> string list option \<Rightarrow> string list" where
  "backup_paths w info customPaths =
     (let stackName = info_Labels info ''com.docker.compose.project'';
          serviceName = info_Labels info ''com.docker.compose.service'';
          declared =
            (if truthy stackName
             then (case stacks_file w (the stackName) of
                     None \<Rightarrow> []
                   | Some stackConfig \<Rightarrow>
                       (if truthy serviceName
                        then (case map_of (sc_services stackConfig) (the serviceName) of
                                None \<Rightarrow> []
                              | Some svc \<Rightarrow> ps_volumes svc)
                        else []))
             else []);
          fromStack = foldl add_trimmed [] declared
      in case customPaths of
           None \<Rightarrow> fromStack
         | Some ps \<Rightarrow> foldl add_trimmed fromStack ps)"

text \<open>
  The loop over \<^verbatim>\<open>uniquePaths\<close>: a status write, then the tar stream of the path
  under \<^verbatim>\<open>path.join(prefix, 'volumes', safeName)\<close>, or, when the engine refuses the
  path, a text entry \<^verbatim>\<open>ERROR_<escaped>.txt\<close>.
\<close>

definition path_entry :: "externals \<Rightarrow> string \<Rightarrow> string \<Rightarrow> string \<Rightarrow> zip_entry" where
  "path_entry ext containerId prefix volPath =
     (case getArchive ext containerId volPath of
        Inr tarStream \<Rightarrow> (volume_entry_name prefix volPath, Bytes tarStream)
      | Inl err \<Rightarrow>
          (path_join prefix (''ERROR_'' @ replace_all_char volPath is_sep CHR ''_'' @ ''.txt''),
           Bytes (''Failed: '' @ err)))"

fun archive_paths ::
  "externals \<Rightarrow> string \<Rightarrow> string \<Rightarrow> string list \<Rightarrow> zip_entry list \<times> world
     \<Rightarrow> zip_entry list \<times> world" where
  "archive_paths ext containerId prefix [] aw = aw"
| "archive_paths ext containerId prefix (volPath # rest) aw =
     (let w1 = updateJobStatus containerId Processing (''Archiving: '' @ volPath) (snd aw)
      in archive_paths ext containerId prefix rest
           (fst aw @ [path_entry ext containerId prefix volPath], w1))"

text \<open>Step 2 of the source: the metadata entry, then the volumes.\<close>

definition config_entry ::
  "externals \<Rightarrow> string \<Rightarrow> string list option \<Rightarrow> container_info \<Rightarrow> world \<Rightarrow> zip_entry" where
  "config_entry ext prefix customPaths info w =
     (path_join prefix ''config.json'',
      ConfigJson
        \<lparr> cfg_name = info_Name info, cfg_image = info_Image info, cfg_env = info_Env info,
          cfg_appType = detectAppType (info_Image info) (info_Labels info),
          cfg_backupPaths = backup_paths w info customPaths,
          cfg_timestamp = toISOString ext (clock w) \<rparr>)"

definition archive_config_and_volumes ::
  "externals \<Rightarrow> string \<Rightarrow> string \<Rightarrow> string list option \<Rightarrow> container_info
     \<Rightarrow> zip_entry list \<times> world \<Rightarrow> zip_entry list \<times> world" where
  "archive_config_and_volumes ext containerId prefix customPaths info aw =
     (let uniquePaths = backup_paths (snd aw) info customPaths;
          archive1 = fst aw @ [config_entry ext prefix customPaths info (snd aw)]
      in if uniquePaths \<noteq> []
         then archive_paths ext containerId prefix uniquePaths (archive1, snd aw)
         else (archive1 @ [(path_join prefix ''volumes_none.txt'', Bytes ''No volumes defined.'')],
               snd aw))"

text \<open>
  The result is the error thrown, if any, with the archive and the state at that point.
  Step 1 of the source is the database dump, appended as \<^verbatim>\<open>dump.sql\<close> before step 2
  runs; a dump of zero bytes rejects with \<^verbatim>\<open>Empty SQL Dump\<close>.  The temporary dump
  file is not tracked.
\<close>

definition archiveContainerInternal ::
  "externals \<Rightarrow> string \<Rightarrow> string \<Rightarrow> string list option \<Rightarrow> zip_entry list \<times> world
     \<Rightarrow> string option \<times> zip_entry list \<times> world" where
  "archiveContainerInternal ext containerId prefix customPaths aw =
     (let w1 = updateJobStatus containerId Processing ''Step: Inspecting Container...'' (snd aw)
      in case inspect ext containerId of
           Inl e \<Rightarrow> (Some e, fst aw, w1)
         | Inr info \<Rightarrow>
             (if is_db_image (info_Image info)
              then (let w2 = updateJobStatus containerId Processing ''Step: DB Strategy Detected'' w1;
                        cmd = dump_cmd (info_Image info) (info_Env info);
                        w3 = updateJobStatus containerId Processing ''Step: Executing Dump...'' w2
                    in case exec_dump ext containerId cmd of
                         Exec_rejected e \<Rightarrow> (Some e, fst aw, w3)
                       | Exec_timeout \<Rightarrow> (Some ''DB Dump timeout'', fst aw, w3)
                       | Exec_done out err \<Rightarrow>
                           (if out = [] then (Some ''Empty SQL Dump'', fst aw, w3)
                            else (None,
                                  archive_config_and_volumes ext containerId prefix customPaths info
                                    (fst aw @ [(path_join prefix ''dump.sql'', Bytes out)], w3))))
              else (None,
                    archive_config_and_volumes ext containerId prefix customPaths info
                      (fst aw, w1))))"


section \<open>Single-container backup job\<close>

text \<open>
  \<^verbatim>\<open>generateBackupFile\<close> runs \<^verbatim>\<open>archiveContainerInternal\<close> inside the executor of a
  promise that is resolved by the output stream closing after \<^verbatim>\<open>archive.finalize()\<close>
  and rejected by an archive error or by a 400 second timer.  The executor is an
  \<^verbatim>\<open>async\<close> function: when \<^verbatim>\<open>archiveContainerInternal\<close> throws, the executor's own
  promise rejects, nothing settles the outer promise, \<^verbatim>\<open>finalize\<close> is never called,
  and the outer promise is rejected by the timer with \<^verbatim>\<open>Backup timed out\<close>.
  The process is taken to survive the unhandled rejection, and the archiver to write what
  was appended.
\<close>

definition set_file :: "string \<Rightarrow> artifact_file \<Rightarrow> world \<Rightarrow> world" where
  "set_file filePath f w = w\<lparr>backups := (backups w)(filePath \<mapsto> f)\<rparr>"

definition remove_file :: "string \<Rightarrow> world \<Rightarrow> world" where
  "remove_file filePath w = w\<lparr>backups := (backups w)(filePath := None)\<rparr>"

definition generateBackupFile ::
  "externals \<Rightarrow> string \<Rightarrow> string list option \<Rightarrow> world \<Rightarrow> (string + string) \<times> world" where
  "generateBackupFile ext containerId customPaths w =
     (case inspect ext containerId of
        Inl e \<Rightarrow> (Inl e, w)
      | Inr info \<Rightarrow>
          (let name = replace_first (info_Name info) ''/'' [];
               filePath = ''backups/'' @ name @ ''_'' @ show_nat (clock w) @ ''.zip''
           in case archiveContainerInternal ext containerId [] customPaths
                     ([], set_file filePath (Unfinished []) w) of
                (Some e, archive, w1) \<Rightarrow>
                  (Inl ''Backup timed out'', set_file filePath (Unfinished archive) w1)
              | (None, archive, w1) \<Rightarrow>
                  (Inr filePath, set_file filePath (Finalized archive) w1)))"

definition basename :: "string \<Rightarrow> string" where
  "basename p = last (split_on CHR ''/'' p)"

text \<open>
  \<^verbatim>\<open>handleUpload\<close>.  With a token and a chat id the artifact is posted; everything
  thrown inside the \<^verbatim>\<open>try\<close> (a missing file, a failed request, a response that is not
  ok) ends in the \<^verbatim>\<open>catch\<close>, which marks the job completed and records a failed
  history entry.  Without them the file stays on disk.  \<open>upload_error\<close> is the message
  of what the request throws: \<^verbatim>\<open>fetch\<close> itself, or
  \<^verbatim>\<open>if (!res.ok) throw new Error(`Telegram Upload Failed: ${res.status} ${await res.text()}`)\<close>.
\<close>

definition upload_error :: "fetch_outcome \<Rightarrow> string option" where
  "upload_error r =
     (case r of
        Fetch_throws m \<Rightarrow> Some m
      | Fetch_response ok code body \<Rightarrow>
          (if \<not> ok then Some (''Telegram Upload Failed: '' @ code @ '' '' @ body) else None))"

definition handleUpload ::
  "externals \<Rightarrow> string \<Rightarrow> string \<Rightarrow> world \<Rightarrow> string option \<times> world" where
  "handleUpload ext containerId filePath w =
     (let name = basename filePath
      in if truthy (TELEGRAM_TOKEN ext) \<and> truthy (CHAT_ID ext)
         then (let w1 = updateJobStatus containerId Uploading ''Sending to Telegram...'' w;
                   attempt =
                     (case backups w1 filePath of
                        None \<Rightarrow> Inl ''ENOENT: no such file or directory''
                      | Some f \<Rightarrow>
                          (case upload_error (sendDocument ext name) of
                             Some m \<Rightarrow> Inl m
                           | None \<Rightarrow> Inr (size_MB ext (entries_of f))))
               in case attempt of
                    Inr fileSize \<Rightarrow>
                      (let w2 = remove_file filePath w1;
                           w3 = updateJobStatus containerId Completed ''Sent to Telegram & Cleaned'' w2
                       in (None,
                           addHistoryEntry
                             (history_entry ext w3 name HSuccess DTelegram
                                ''Backup sent to Telegram'' (Some fileSize)) w3))
                  | Inl m \<Rightarrow>
                      (let w2 = updateJobStatus containerId Completed
                                  ''Saved Local (Telegram Failed)'' w1
                       in (None,
                           addHistoryEntry
                             (history_entry ext w2 name HFailed DLocal
                                (''Telegram upload failed: '' @ m) None) w2)))
         else (let w1 = updateJobStatus containerId Completed ''Saved to local disk'' w
               in case backups w1 filePath of
                    None \<Rightarrow> (Some ''ENOENT: no such file or directory'', w1)
                  | Some f \<Rightarrow>
                      (None,
                       addHistoryEntry
                         (history_entry ext w1 name HSuccess DLocal ''Saved to local disk''
                            (Some (size_MB ext (entries_of f)))) w1)))"

text \<open>The \<^verbatim>\<open>catch\<close> of \<^verbatim>\<open>processBackup\<close>.\<close>

definition backup_failed :: "externals \<Rightarrow> string \<Rightarrow> string \<Rightarrow> world \<Rightarrow> world" where
  "backup_failed ext containerId msg w =
     (let w1 = updateJobStatus containerId Failed msg w
      in addHistoryEntry (history_entry ext w1 ''Unknown'' HFailed DLocal msg None) w1)"

definition processBackup :: "externals \<Rightarrow> string \<Rightarrow> string list option \<Rightarrow> world \<Rightarrow> world" where
  "processBackup ext containerId customPaths w =
     (let w1 = updateJobStatus containerId Processing ''Identifying...'' w
      in case generateBackupFile ext containerId customPaths w1 of
           (Inl e, w2) \<Rightarrow> backup_failed ext containerId e w2
         | (Inr filePath, w2) \<Rightarrow>
             (case handleUpload ext containerId filePath w2 of
                (Some e, w3) \<Rightarrow> backup_failed ext containerId e w3
              | (None, w3) \<Rightarrow> w3))"

section \<open>Unified stack backup (\<^verbatim>\<open>triggerUnifiedStackBackup\<close>)\<close>

text \<open>
  The members of a stack: the containers whose compose project label is the stack name;
  when there are none, the containers whose service label names a service of the stored
  definition.
\<close>

definition stack_containers ::
  "world \<Rightarrow> string \<Rightarrow> container_summary list \<Rightarrow> container_summary list" where
  "stack_containers w stackName containers =
     (let byProject =
            filter (\<lambda>c. c_Labels c ''com.docker.compose.project'' = Some stackName) containers
      in if byProject \<noteq> [] then byProject
         else (let serviceNames =
                     (case stacks_file w stackName of
                        None \<Rightarrow> []
                      | Some stack \<Rightarrow> map fst (sc_services stack))
               in filter (\<lambda>c. truthy (c_Labels c ''com.docker.compose.service'')
                               \<and> the (c_Labels c ''com.docker.compose.service'') \<in> set serviceNames)
                         containers))"

definition container_name :: "container_summary \<Rightarrow> string" where
  "container_name c = replace_first (c_Name c) ''/'' []"

definition stackMetadata :: "externals \<Rightarrow> world \<Rightarrow> string \<Rightarrow> container_summary list \<Rightarrow> stack_metadata" where
  "stackMetadata ext w stackName stackContainers =
     \<lparr> sm_stackName = stackName, sm_timestamp = toISOString ext (clock w),
       sm_containers =
         map (\<lambda>c. (c_Id c, container_name c,
                   or_default (c_Labels c ''com.docker.compose.service'') ''unknown''))
             stackContainers \<rparr>"

text \<open>Steps 1, 2 and 2.5: root metadata, the manifest, the environment file.\<close>

definition stack_header ::
  "externals \<Rightarrow> string \<Rightarrow> string \<Rightarrow> container_summary list \<Rightarrow> world
     \<Rightarrow> zip_entry list \<times> world" where
  "stack_header ext virtualId stackName stackContainers w =
     (let stackConfig = stacks_file w stackName;
          a0 = [(''stack_metadata.json'',
                 StackMetadataJson (stackMetadata ext w stackName stackContainers))];
          a1 = (case stackConfig of
                  None \<Rightarrow> a0
                | Some sc \<Rightarrow>
                    (if sc_yaml sc \<noteq> [] then a0 @ [(''docker-compose.yml'', Bytes (sc_yaml sc))]
                     else a0));
          envVars = (case stackConfig of None \<Rightarrow> [] | Some sc \<Rightarrow>
                       (case sc_envVars sc of None \<Rightarrow> [] | Some kvs \<Rightarrow> kvs));
          envFile = (case stackConfig of None \<Rightarrow> None | Some sc \<Rightarrow> sc_envFile sc)
      in if envVars \<noteq> []
         then (a1 @ [(''.env'',
                      Bytes (join_with [CHR 0x0A] (map (\<lambda>kv. fst kv @ ''='' @ snd kv) envVars)))],
               updateJobStatus virtualId Processing ''Including environment variables...'' w)
         else if truthy envFile
         then (case readFile ext (the envFile) of
                 Some (Inr envContent) \<Rightarrow>
                   (a1 @ [(''.env'', Bytes envContent)],
                    updateJobStatus virtualId Processing ''Including .env file...'' w)
               | _ \<Rightarrow> (a1, w))
         else (a1, w))"

text \<open>Step 3: the services, one after the other, each under \<^verbatim>\<open>services/<name>\<close>.\<close>

fun archive_services ::
  "externals \<Rightarrow> string \<Rightarrow> nat \<Rightarrow> nat \<Rightarrow> container_summary list \<Rightarrow> zip_entry list \<times> world
     \<Rightarrow> string option \<times> zip_entry list \<times> world" where
  "archive_services ext virtualId n i [] aw = (None, aw)"
| "archive_services ext virtualId n i (c # cs) aw =
     (let cName = container_name c;
          w1 = updateJobStatus virtualId Processing
                 (''Archiving Service ['' @ show_nat (i + 1) @ ''/'' @ show_nat n @ '']: '' @ cName)
                 (snd aw)
      in case archiveContainerInternal ext (c_Id c) (''services/'' @ cName) None (fst aw, w1) of
           (Some e, aw') \<Rightarrow> (Some e, aw')
         | (None, aw') \<Rightarrow> archive_services ext virtualId n (i + 1) cs aw')"

text \<open>The body of the promise executor: header, then services.\<close>

definition unified_archive ::
  "externals \<Rightarrow> string \<Rightarrow> string \<Rightarrow> container_summary list \<Rightarrow> world
     \<Rightarrow> string option \<times> zip_entry list \<times> world" where
  "unified_archive ext virtualId stackName stackContainers w =
     archive_services ext virtualId (length stackContainers) 0 stackContainers
       (stack_header ext virtualId stackName stackContainers w)"

text \<open>
  The whole job.  As in \<^verbatim>\<open>generateBackupFile\<close> the archive is filled inside an
  \<^verbatim>\<open>async\<close> promise executor, here with a 600 second timer that rejects with
  \<^verbatim>\<open>Unified Backup timeout\<close>.  The \<^verbatim>\<open>catch\<close> marks the job failed and writes no
  history entry.
\<close>

definition stack_failed :: "string \<Rightarrow> string \<Rightarrow> world \<Rightarrow> (string + string) \<times> world" where
  "stack_failed virtualId msg w = (Inl msg, updateJobStatus virtualId Failed msg w)"

definition triggerUnifiedStackBackup ::
  "externals \<Rightarrow> string \<Rightarrow> world \<Rightarrow> (string + string) \<times> world" where
  "triggerUnifiedStackBackup ext stackName w =
     (let filePath = ''backups/stack_'' @ stackName @ ''_'' @ show_nat (clock w) @ ''.zip'';
          virtualId = ''stack-'' @ stackName;
          w1 = updateJobStatus virtualId Processing
                 (''Starting Unified Backup for '' @ stackName @ ''...'') w
      in case listContainers ext of
           Inl e \<Rightarrow> stack_failed virtualId e w1
         | Inr containers \<Rightarrow>
             (let stackContainers = stack_containers w1 stackName containers
              in if stackContainers = []
                 then stack_failed virtualId
                        (''No containers found for stack '' @ [CHR 0x22] @ stackName @ [CHR 0x22]) w1
                 else (case unified_archive ext virtualId stackName stackContainers
                              (set_file filePath (Unfinished []) w1) of
                            (Some e, archive, w3) \<Rightarrow>
                              stack_failed virtualId ''Unified Backup timeout''
                                (set_file filePath (Unfinished archive) w3)
                          | (None, archive, w3) \<Rightarrow>
                              (case handleUpload ext virtualId filePath
                                      (set_file filePath (Finalized archive) w3) of
                                 (Some e, w4) \<Rightarrow> stack_failed virtualId e w4
                               | (None, w4) \<Rightarrow> (Inr filePath, w4)))))"


section \<open>The queue and the event loop\<close>

text \<open>
  The service runs on one thread.  An \<^verbatim>\<open>async\<close> function runs without interruption
  up to its next \<^verbatim>\<open>await\<close>, is suspended there, and is resumed when the awaited
  operation has ended; between two such segments other requests are served and other
  suspended functions are resumed.  The queue of \<^verbatim>\<open>lib/queue.ts\<close> is a \<^verbatim>\<open>PQueue\<close>
  with concurrency 1, a library: \<^verbatim>\<open>add\<close> puts the task at the end of the queue and,
  when no task is running, starts the oldest one at once, inside the call; when the
  running task has settled, the queue starts the next one before anything else runs.

  The runs of this section are made of calls of \<^verbatim>\<open>triggerBackup\<close> and of the
  resumptions of the backups it starts.  The scheduler also adds unified stack backups to
  the queue, and the interface calls the unified stack backup and the restores directly;
  such calls are not part of these runs.

  Where the promise executor of \<^verbatim>\<open>generateBackupFile\<close>, which runs
  \<^verbatim>\<open>archiveContainerInternal\<close> and then \<^verbatim>\<open>archive.finalize()\<close>, is suspended:
  \<^item> \<open>AwaitInspect\<close>: at \<^verbatim>\<open>await container.inspect()\<close>;
  \<^item> \<open>AwaitDump info\<close>: at \<^verbatim>\<open>await container.exec(...)\<close> and at the promise around
    \<^verbatim>\<open>exec.start\<close> awaited right after it, with no status write in between;
  \<^item> \<open>AwaitGetArchive volPath rest\<close>: at \<^verbatim>\<open>await container.getArchive({ path: volPath })\<close>,
    \<open>rest\<close> being the paths still to come;
  \<^item> \<open>AwaitClose\<close>: the loop is over and \<^verbatim>\<open>archive.finalize()\<close> has been called; the
    output stream has yet to close;
  \<^item> \<open>Thrown e\<close>: \<^verbatim>\<open>archiveContainerInternal\<close> has thrown \<open>e\<close>; the executor's own
    promise is rejected and nothing of it runs any more.
\<close>

datatype exec_pc =
    AwaitInspect
  | AwaitDump container_info
  | AwaitGetArchive string "string list"
  | AwaitClose
  | Thrown string

record executor =
  ex_container :: string
  ex_customPaths :: "string list option"
  ex_file :: string
  ex_archive :: "zip_entry list"
  ex_pc :: exec_pc

text \<open>
  Where \<^verbatim>\<open>processBackup\<close> is suspended:
  \<^item> \<open>InInspect\<close>: in \<^verbatim>\<open>generateBackupFile\<close>, at \<^verbatim>\<open>await container.inspect()\<close>;
  \<^item> \<open>InArchive ex\<close>: in \<^verbatim>\<open>generateBackupFile\<close>, at \<^verbatim>\<open>await new Promise(...)\<close>,
    with the executor \<open>ex\<close> inside and the 400 second timer armed;
  \<^item> \<open>InFetch filePath fileSize\<close>: in \<^verbatim>\<open>handleUpload\<close>, at \<^verbatim>\<open>await fetch(...)\<close>;
  \<^item> \<open>InText filePath code body\<close>: in \<^verbatim>\<open>handleUpload\<close>, at \<^verbatim>\<open>await res.text()\<close>.
\<close>

datatype job_pc =
    InInspect
  | InArchive executor
  | InFetch string string
  | InText string string string

record job =
  job_id :: string
  job_customPaths :: "string list option"
  job_pc :: job_pc

text \<open>
  The process: the shared state, the task the queue is running, and the executors whose
  promise was rejected by the timer while they were suspended.  Such an executor is not
  cancelled; it is resumed like any other suspended function.
\<close>

record node =
  store :: world
  running :: "job option"
  abandoned :: "executor list"

definition live :: "exec_pc \<Rightarrow> bool" where
  "live pc = (case pc of AwaitClose \<Rightarrow> False | Thrown e \<Rightarrow> False | _ \<Rightarrow> True)"

text \<open>
  The process while the backup of the container \<open>jid\<close> waits for its archive, the
  executor being suspended at \<open>pc\<close> with the entries \<open>a\<close> appended so far.
\<close>

definition archive_node ::
  "world \<Rightarrow> string \<Rightarrow> string list option \<Rightarrow> string \<Rightarrow> zip_entry list \<Rightarrow> exec_pc
     \<Rightarrow> executor list \<Rightarrow> node" where
  "archive_node w jid cp fp a pc ab =
     \<lparr> store = w,
       running = Some \<lparr> job_id = jid, job_customPaths = cp,
                        job_pc = InArchive \<lparr> ex_container = jid, ex_customPaths = cp, ex_file = fp,
                                              ex_archive = a, ex_pc = pc \<rparr> \<rparr>,
       abandoned = ab \<rparr>"

text \<open>
  The segments of \<^verbatim>\<open>archiveContainerInternal\<close>.  \<open>next_path\<close> is the head of the loop
  over \<^verbatim>\<open>uniquePaths\<close>: a status write and the request for the tar stream, or, after
  the last path, the return to the executor, which calls \<^verbatim>\<open>archive.finalize()\<close>.
  \<open>begin_volumes\<close> is step 2 up to the first \<^verbatim>\<open>await\<close>.  \<open>exec_resume\<close> resumes
  the executor where it is suspended.
\<close>

definition next_path :: "string list \<Rightarrow> executor \<Rightarrow> world \<Rightarrow> executor \<times> world" where
  "next_path ps ex w =
     (case ps of
        [] \<Rightarrow> (ex\<lparr>ex_pc := AwaitClose\<rparr>, w)
      | volPath # rest \<Rightarrow>
          (ex\<lparr>ex_pc := AwaitGetArchive volPath rest\<rparr>,
           updateJobStatus (ex_container ex) Processing (''Archiving: '' @ volPath) w))"

definition begin_volumes ::
  "externals \<Rightarrow> container_info \<Rightarrow> executor \<Rightarrow> world \<Rightarrow> executor \<times> world" where
  "begin_volumes ext info ex w =
     (let uniquePaths = backup_paths w info (ex_customPaths ex);
          ex1 = ex\<lparr>ex_archive := ex_archive ex @ [config_entry ext [] (ex_customPaths ex) info w]\<rparr>
      in if uniquePaths \<noteq> [] then next_path uniquePaths ex1 w
         else (ex1\<lparr>ex_archive := ex_archive ex1
                                   @ [(path_join [] ''volumes_none.txt'', Bytes ''No volumes defined.'')],
                   ex_pc := AwaitClose\<rparr>, w))"

definition exec_resume :: "externals \<Rightarrow> executor \<Rightarrow> world \<Rightarrow> executor \<times> world" where
  "exec_resume ext ex w =
     (let containerId = ex_container ex
      in case ex_pc ex of
           AwaitInspect \<Rightarrow>
             (case inspect ext containerId of
                Inl e \<Rightarrow> (ex\<lparr>ex_pc := Thrown e\<rparr>, w)
              | Inr info \<Rightarrow>
                  (if is_db_image (info_Image info)
                   then (ex\<lparr>ex_pc := AwaitDump info\<rparr>,
                         updateJobStatus containerId Processing ''Step: Executing Dump...''
                           (updateJobStatus containerId Processing ''Step: DB Strategy Detected'' w))
                   else begin_volumes ext info ex w))
         | AwaitDump info \<Rightarrow>
             (case exec_dump ext containerId (dump_cmd (info_Image info) (info_Env info)) of
                Exec_rejected e \<Rightarrow> (ex\<lparr>ex_pc := Thrown e\<rparr>, w)
              | Exec_timeout \<Rightarrow> (ex\<lparr>ex_pc := Thrown ''DB Dump timeout''\<rparr>, w)
              | Exec_done out err \<Rightarrow>
                  (if out = [] then (ex\<lparr>ex_pc := Thrown ''Empty SQL Dump''\<rparr>, w)
                   else begin_volumes ext info
                          (ex\<lparr>ex_archive := ex_archive ex @ [(path_join [] ''dump.sql'', Bytes out)]\<rparr>)
                          w))
         | AwaitGetArchive volPath rest \<Rightarrow>
             next_path rest
               (ex\<lparr>ex_archive := ex_archive ex @ [path_entry ext containerId [] volPath]\<rparr>) w
         | AwaitClose \<Rightarrow> (ex, w)
         | Thrown e \<Rightarrow> (ex, w))"

text \<open>
  The segments of \<^verbatim>\<open>handleUpload\<close>: its \<^verbatim>\<open>catch\<close>, the end of its \<^verbatim>\<open>try\<close>,
  and its beginning up to \<^verbatim>\<open>await fetch(...)\<close>.  Without a token and a chat id there
  is no \<^verbatim>\<open>await\<close>, and a missing file is thrown to the \<^verbatim>\<open>catch\<close> of
  \<^verbatim>\<open>processBackup\<close>.
\<close>

definition upload_failed :: "externals \<Rightarrow> string \<Rightarrow> string \<Rightarrow> string \<Rightarrow> world \<Rightarrow> world" where
  "upload_failed ext containerId filePath m w =
     (let w2 = updateJobStatus containerId Completed ''Saved Local (Telegram Failed)'' w
      in addHistoryEntry
           (history_entry ext w2 (basename filePath) HFailed DLocal
              (''Telegram upload failed: '' @ m) None) w2)"

definition upload_sent :: "externals \<Rightarrow> string \<Rightarrow> string \<Rightarrow> string \<Rightarrow> world \<Rightarrow> world" where
  "upload_sent ext containerId filePath fileSize w =
     (let w2 = remove_file filePath w;
          w3 = updateJobStatus containerId Completed ''Sent to Telegram & Cleaned'' w2
      in addHistoryEntry
           (history_entry ext w3 (basename filePath) HSuccess DTelegram
              ''Backup sent to Telegram'' (Some fileSize)) w3)"

definition upload_begin ::
  "externals \<Rightarrow> string \<Rightarrow> string \<Rightarrow> world \<Rightarrow> job_pc option \<times> world" where
  "upload_begin ext containerId filePath w =
     (if truthy (TELEGRAM_TOKEN ext) \<and> truthy (CHAT_ID ext)
      then (let w1 = updateJobStatus containerId Uploading ''Sending to Telegram...'' w
            in case backups w1 filePath of
                 None \<Rightarrow>
                   (None, upload_failed ext containerId filePath
                            ''ENOENT: no such file or directory'' w1)
               | Some f \<Rightarrow> (Some (InFetch filePath (size_MB ext (entries_of f))), w1))
      else (let w1 = updateJobStatus containerId Completed ''Saved to local disk'' w
            in case backups w1 filePath of
                 None \<Rightarrow>
                   (None, backup_failed ext containerId ''ENOENT: no such file or directory'' w1)
               | Some f \<Rightarrow>
                   (None,
                    addHistoryEntry
                      (history_entry ext w1 (basename filePath) HSuccess DLocal ''Saved to local disk''
                         (Some (size_MB ext (entries_of f)))) w1)))"

text \<open>
  \<open>job_resume\<close> resumes \<^verbatim>\<open>processBackup\<close> where it is suspended and runs it to its
  next \<^verbatim>\<open>await\<close>; the result is \<open>None\<close> when the function has returned.  While the
  job waits for the archive, what is resumed is the executor; when the output stream
  closes, the promise is resolved, the timer is cleared and the upload begins.  An
  executor that has thrown leaves the job waiting for the timer.
\<close>

definition job_resume :: "externals \<Rightarrow> job \<Rightarrow> world \<Rightarrow> job option \<times> world" where
  "job_resume ext j w =
     (let containerId = job_id j
      in case job_pc j of
           InInspect \<Rightarrow>
             (case inspect ext containerId of
                Inl e \<Rightarrow> (None, backup_failed ext containerId e w)
              | Inr info \<Rightarrow>
                  (let name = replace_first (info_Name info) ''/'' [];
                       filePath = ''backups/'' @ name @ ''_'' @ show_nat (clock w) @ ''.zip'';
                       w1 = set_file filePath (Unfinished []) w;
                       ex = \<lparr> ex_container = containerId, ex_customPaths = job_customPaths j,
                              ex_file = filePath, ex_archive = [], ex_pc = AwaitInspect \<rparr>
                   in (Some (j\<lparr>job_pc := InArchive ex\<rparr>),
                       updateJobStatus containerId Processing ''Step: Inspecting Container...'' w1)))
         | InArchive ex \<Rightarrow>
             (case ex_pc ex of
                AwaitClose \<Rightarrow>
                  (case upload_begin ext containerId (ex_file ex)
                          (set_file (ex_file ex) (Finalized (ex_archive ex)) w) of
                     (None, w2) \<Rightarrow> (None, w2)
                   | (Some pc, w2) \<Rightarrow> (Some (j\<lparr>job_pc := pc\<rparr>), w2))
              | Thrown e \<Rightarrow> (Some j, w)
              | _ \<Rightarrow>
                  (case exec_resume ext ex w of
                     (ex', w') \<Rightarrow> (Some (j\<lparr>job_pc := InArchive ex'\<rparr>), w')))
         | InFetch filePath fileSize \<Rightarrow>
             (case sendDocument ext (basename filePath) of
                Fetch_throws m \<Rightarrow> (None, upload_failed ext containerId filePath m w)
              | Fetch_response ok code body \<Rightarrow>
                  (if ok then (None, upload_sent ext containerId filePath fileSize w)
                   else (Some (j\<lparr>job_pc := InText filePath code body\<rparr>), w)))
         | InText filePath code body \<Rightarrow>
             (None, upload_failed ext containerId filePath
                      (''Telegram Upload Failed: '' @ code @ '' '' @ body) w))"

text \<open>
  The queue.  \<open>start_task\<close> calls the task, which runs \<^verbatim>\<open>processBackup\<close> up to its
  first \<^verbatim>\<open>await\<close>.  \<open>start_next\<close> starts the oldest waiting task unless one is
  running.  \<open>queue_add\<close> is \<^verbatim>\<open>backupQueue.add\<close>, and \<open>task_done\<close> is what the queue
  does when the running task has settled.
\<close>

definition start_task :: "task \<Rightarrow> node \<Rightarrow> node" where
  "start_task t n =
     (case t of
        BackupTask containerId customPaths \<Rightarrow>
          n\<lparr>store := updateJobStatus containerId Processing ''Identifying...'' (store n),
            running := Some \<lparr> job_id = containerId, job_customPaths = customPaths,
                              job_pc = InInspect \<rparr>\<rparr>)"

definition start_next :: "node \<Rightarrow> node" where
  "start_next n =
     (case running n of
        Some j \<Rightarrow> n
      | None \<Rightarrow>
          (case backupQueue (store n) of
             [] \<Rightarrow> n
           | t # ts \<Rightarrow> start_task t (n\<lparr>store := (store n)\<lparr>backupQueue := ts\<rparr>\<rparr>)))"

definition queue_add :: "task \<Rightarrow> node \<Rightarrow> node" where
  "queue_add t n = start_next (n\<lparr>store := (store n)\<lparr>backupQueue := backupQueue (store n) @ [t]\<rparr>\<rparr>)"

definition triggerBackup ::
  "string list \<Rightarrow> (string \<rightharpoonup> string list) \<Rightarrow> node \<Rightarrow> node" where
  "triggerBackup containerIds customPathsMap n =
     foldl (\<lambda>n' jid. queue_add (BackupTask jid (customPathsMap jid))
                       (n'\<lparr>store := updateJobStatus jid Pending ''Queued'' (store n')\<rparr>))
           n containerIds"

definition task_done :: "node \<Rightarrow> node" where
  "task_done n = start_next (n\<lparr>running := None\<rparr>)"

text \<open>
  The promise of \<^verbatim>\<open>generateBackupFile\<close> is rejected, by its 400 second timer with
  \<^verbatim>\<open>Backup timed out\<close> or by an \<^verbatim>\<open>error\<close> event of the archive with the message
  of the error: the \<^verbatim>\<open>catch\<close> of \<^verbatim>\<open>processBackup\<close> runs and the task settles.
  The executor stays behind.
\<close>

definition job_rejected :: "externals \<Rightarrow> string \<Rightarrow> node \<Rightarrow> node" where
  "job_rejected ext msg n =
     (case running n of
        None \<Rightarrow> n
      | Some j \<Rightarrow>
          (case job_pc j of
             InArchive ex \<Rightarrow>
               task_done
                 (n\<lparr>store := backup_failed ext (job_id j) msg
                               (set_file (ex_file ex) (Unfinished (ex_archive ex)) (store n)),
                    abandoned := abandoned n @ [ex]\<rparr>)
           | _ \<Rightarrow> n))"

definition resume_running :: "externals \<Rightarrow> node \<Rightarrow> node" where
  "resume_running ext n =
     (case running n of
        None \<Rightarrow> n
      | Some j \<Rightarrow>
          (case job_resume ext j (store n) of
             (Some j', w') \<Rightarrow> n\<lparr>store := w', running := Some j'\<rparr>
           | (None, w') \<Rightarrow> task_done (n\<lparr>store := w'\<rparr>)))"

definition resume_abandoned :: "externals \<Rightarrow> nat \<Rightarrow> node \<Rightarrow> node" where
  "resume_abandoned ext i n =
     (if i < length (abandoned n)
      then (let ex = abandoned n ! i
            in case ex_pc ex of
                 AwaitClose \<Rightarrow>
                   n\<lparr>store := set_file (ex_file ex) (Finalized (ex_archive ex)) (store n),
                     abandoned := take i (abandoned n) @ drop (Suc i) (abandoned n)\<rparr>
               | Thrown e \<Rightarrow> n
               | _ \<Rightarrow>
                   (case exec_resume ext ex (store n) of
                      (ex', w') \<Rightarrow> n\<lparr>store := w', abandoned := (abandoned n)[i := ex']\<rparr>))
      else n)"

text \<open>
  What can happen next: a call of \<^verbatim>\<open>triggerBackup\<close>, the end of the operation the
  running backup waits for, the expiry of its timer, an error of its archive, the end of
  the operation an abandoned executor waits for.
\<close>

datatype event =
    Trigger "string list" "string \<rightharpoonup> string list"
  | Resume
  | Timeout
  | ArchiveError string
  | ResumeAbandoned nat

fun node_step :: "externals \<Rightarrow> node \<Rightarrow> event \<Rightarrow> node" where
  "node_step ext n (Trigger containerIds customPathsMap) = triggerBackup containerIds customPathsMap n"
| "node_step ext n Resume = resume_running ext n"
| "node_step ext n Timeout = job_rejected ext ''Backup timed out'' n"
| "node_step ext n (ArchiveError msg) = job_rejected ext msg n"
| "node_step ext n (ResumeAbandoned i) = resume_abandoned ext i n"

definition run_events :: "externals \<Rightarrow> event list \<Rightarrow> node \<Rightarrow> node" where
  "run_events ext evs n = foldl (node_step ext) n evs"

definition boot :: "world \<Rightarrow> node" where
  "boot w = \<lparr> store = w, running = None, abandoned = [] \<rparr>"

text \<open>
  A run is \<open>timely\<close> when the promise of a backup is rejected, by the timer or by an
  error of the archive, only after its executor has stopped, that is, has thrown or has
  called \<^verbatim>\<open>archive.finalize()\<close>.
\<close>

definition archiving :: "node \<Rightarrow> bool" where
  "archiving n =
     (case running n of
        None \<Rightarrow> False
      | Some j \<Rightarrow> (case job_pc j of InArchive ex \<Rightarrow> live (ex_pc ex) | _ \<Rightarrow> False))"

fun timely :: "externals \<Rightarrow> node \<Rightarrow> event list \<Rightarrow> bool" where
  "timely ext n [] = True"
| "timely ext n (ev # evs) =
     ((case ev of Timeout \<Rightarrow> \<not> archiving n | ArchiveError msg \<Rightarrow> \<not> archiving n | _ \<Rightarrow> True)
      \<and> timely ext (node_step ext n ev) evs)"

text \<open>
  \<open>owner\<close> is the id of the backup the queue is running, if any.  \<open>calm S w\<close>: on
  the board of \<open>w\<close> only ids of \<open>S\<close> are \<open>Processing\<close>, and no earlier board had two ids
  \<open>Processing\<close>.  \<open>serial_inv\<close> is the invariant of timely runs.
\<close>

definition owner :: "node \<Rightarrow> string set" where
  "owner n = (case running n of None \<Rightarrow> {} | Some j \<Rightarrow> {job_id j})"

definition calm :: "string set \<Rightarrow> world \<Rightarrow> bool" where
  "calm S w \<longleftrightarrow>
     set (processing_ids (globalState w)) \<subseteq> S
     \<and> (\<forall>k. length (processing_ids (drop k (globalState w))) \<le> 1)"

definition serial_inv :: "node \<Rightarrow> bool" where
  "serial_inv n \<longleftrightarrow>
     calm (owner n) (store n)
     \<and> (\<forall>j ex. running n = Some j \<and> job_pc j = InArchive ex \<longrightarrow> ex_container ex = job_id j)
     \<and> (\<forall>ex \<in> set (abandoned n). \<not> live (ex_pc ex))"



section \<open>A small installation, for concrete runs\<close>

text \<open>The state of a process that has just started, with nothing stored.\<close>

definition fresh_world :: "world" where
  "fresh_world =
     \<lparr> globalState = [], backupQueue = [], history_file = None, stacks_file = Map.empty,
       backups = Map.empty, clock = 1700000000000 \<rparr>"

text \<open>
  Two containers of the compose project \<^verbatim>\<open>shop\<close>: a web server and a Postgres
  database.  The engine hands out every path; nothing is configured for Telegram.
\<close>

definition nginx_info :: container_info where
  "nginx_info =
     \<lparr> info_Name = ''/nginx-1'', info_Image = ''nginx:latest'', info_Env = [],
       info_Labels = Map.empty \<rparr>"

definition pg_info :: container_info where
  "pg_info =
     \<lparr> info_Name = ''/db'', info_Image = ''postgres:15'',
       info_Env = [''POSTGRES_USER=app'', ''POSTGRES_PASSWORD=s3cret''],
       info_Labels = Map.empty \<rparr>"

definition shop_containers :: "container_summary list" where
  "shop_containers =
     [\<lparr> c_Id = ''c-nginx'', c_Name = ''/nginx-1'',
         c_Labels = [''com.docker.compose.project'' \<mapsto> ''shop''] \<rparr>,
      \<lparr> c_Id = ''c-db'', c_Name = ''/db'',
         c_Labels = [''com.docker.compose.project'' \<mapsto> ''shop''] \<rparr>]"

definition demo_ext :: externals where
  "demo_ext =
     \<lparr> inspect = (\<lambda>cid. if cid = ''c-nginx'' then Inr nginx_info
                         else if cid = ''c-db'' then Inr pg_info
                         else Inl ''no such container''),
       exec_dump = (\<lambda>cid cmd. Exec_done ''-- PostgreSQL database cluster dump'' []),
       getArchive = (\<lambda>cid p. Inr ''tar-bytes''),
       listContainers = Inr shop_containers,
       readFile = (\<lambda>p. None),
       TELEGRAM_TOKEN = None, CHAT_ID = None,
       sendDocument = (\<lambda>name. Fetch_response False ''403'' ''Forbidden''),
       toISOString = (\<lambda>t. ''2023-11-14T22:13:20.000Z''),
       size_MB = (\<lambda>es. ''0.00 MB'') \<rparr>"

text \<open>
  Two variations: the dump command writes nothing to stdout and an error to stderr; a
  Telegram token and chat id are configured and the endpoint answers 403.
\<close>

definition failing_dump_ext :: externals where
  "failing_dump_ext =
     demo_ext\<lparr>exec_dump := \<lambda>cid cmd. Exec_done [] ''pg_dumpall: error: connection to server failed''\<rparr>"

definition telegram_ext :: externals where
  "telegram_ext = demo_ext\<lparr>TELEGRAM_TOKEN := Some ''123:abc'', CHAT_ID := Some ''42''\<rparr>"


section \<open>Clean state before a stack restore (\<^verbatim>\<open>restoreUnifiedStackBackup\<close>, step 1)\<close>

text \<open>
  The step lists the containers, keeps those whose compose project label is the stack
  name, and for each of them calls \<^verbatim>\<open>container.stop({t: 10})\<close> and then
  \<^verbatim>\<open>container.remove({v: true, force: true})\<close> inside a \<^verbatim>\<open>try\<close> whose
  \<^verbatim>\<open>catch\<close> ignores the error; a failure of the listing is caught and skips the step.

  The engine is external.  Its state is a list of containers, a list of volumes and the
  list of the requests it has received, oldest first, and its two operations follow the
  Docker Engine API as the client library exposes it:
  stopping a container that does not exist or is not running is an error; removing a
  container deletes the container object and, when \<^verbatim>\<open>v\<close> is set, the anonymous volumes
  mounted by it that no other container mounts; a running container is removed only with
  \<^verbatim>\<open>force\<close>.
\<close>

record engine_container =
  ec_Id :: string
  ec_project :: "string option"
  ec_running :: bool
  ec_mounts :: "string list"

record engine_volume =
  ev_name :: string
  ev_anonymous :: bool

text \<open>The requests the engine receives: \<^verbatim>\<open>stop({t})\<close> and \<^verbatim>\<open>remove({v, force})\<close>.\<close>

datatype engine_call = Stop string nat | Remove string bool bool

record docker_host =
  host_containers :: "engine_container list"
  host_volumes :: "engine_volume list"
  host_list_error :: "string option"
  host_requests :: "engine_call list"

definition received :: "engine_call \<Rightarrow> docker_host \<Rightarrow> docker_host" where
  "received call h = h\<lparr>host_requests := host_requests h @ [call]\<rparr>"

definition engine_stop :: "string \<Rightarrow> docker_host \<Rightarrow> string + docker_host" where
  "engine_stop cid h =
     (case find (\<lambda>c. ec_Id c = cid) (host_containers h) of
        None \<Rightarrow> Inl ''no such container''
      | Some c \<Rightarrow>
          (if \<not> ec_running c then Inl ''container already stopped''
           else Inr (h\<lparr>host_containers :=
                         map (\<lambda>c'. if ec_Id c' = cid then c'\<lparr>ec_running := False\<rparr> else c')
                             (host_containers h)\<rparr>)))"

definition mounted_by :: "engine_container list \<Rightarrow> engine_volume \<Rightarrow> bool" where
  "mounted_by cs vol \<longleftrightarrow> (\<exists>c \<in> set cs. ev_name vol \<in> set (ec_mounts c))"

definition doomed_volume :: "bool \<Rightarrow> engine_container \<Rightarrow> engine_container list \<Rightarrow> engine_volume \<Rightarrow> bool" where
  "doomed_volume v c others vol \<longleftrightarrow>
     v \<and> ev_anonymous vol \<and> ev_name vol \<in> set (ec_mounts c) \<and> \<not> mounted_by others vol"

definition engine_remove :: "bool \<Rightarrow> bool \<Rightarrow> string \<Rightarrow> docker_host \<Rightarrow> string + docker_host" where
  "engine_remove v force cid h =
     (case find (\<lambda>c. ec_Id c = cid) (host_containers h) of
        None \<Rightarrow> Inl ''no such container''
      | Some c \<Rightarrow>
          (if ec_running c \<and> \<not> force then Inl ''cannot remove a running container''
           else (let others = filter (\<lambda>c'. ec_Id c' \<noteq> cid) (host_containers h)
                 in Inr (h\<lparr>host_containers := others,
                           host_volumes :=
                             filter (\<lambda>vol. \<not> doomed_volume v c others vol) (host_volumes h)\<rparr>))))"

text \<open>
  The body of the loop: \<^verbatim>\<open>await container.stop({ t: 10 })\<close>, then
  \<^verbatim>\<open>await container.remove({ v: true, force: true })\<close>; when the first throws the
  second is not requested, and the \<^verbatim>\<open>catch\<close> ignores what was thrown.
\<close>

definition stop_and_remove :: "docker_host \<Rightarrow> engine_container \<Rightarrow> docker_host" where
  "stop_and_remove h c =
     (let h0 = received (Stop (ec_Id c) 10) h
      in case engine_stop (ec_Id c) h0 of
           Inl e \<Rightarrow> h0
         | Inr h1 \<Rightarrow>
             (let h1' = received (Remove (ec_Id c) True True) h1
              in case engine_remove True True (ec_Id c) h1' of
                   Inl e \<Rightarrow> h1'
                 | Inr h2 \<Rightarrow> h2))"

text \<open>
  \<^verbatim>\<open>containers.filter(c => c.Labels?.['com.docker.compose.project'] === stackName)\<close>,
  taken from the listing made before the loop.
\<close>

definition stack_members :: "string \<Rightarrow> docker_host \<Rightarrow> engine_container list" where
  "stack_members stackName h = filter (\<lambda>c. ec_project c = Some stackName) (host_containers h)"

definition clean_existing_stack :: "string \<Rightarrow> docker_host \<Rightarrow> docker_host" where
  "clean_existing_stack stackName h =
     (case host_list_error h of
        Some err \<Rightarrow> h
      | None \<Rightarrow> foldl stop_and_remove h (stack_members stackName h))"

text \<open>
  What the step must not touch: the named volumes, and the containers of other projects.
  \<open>requests_for c\<close> are the two requests the loop sends for a container it removes.
\<close>

definition named_volumes :: "docker_host \<Rightarrow> engine_volume list" where
  "named_volumes h = filter (\<lambda>vol. \<not> ev_anonymous vol) (host_volumes h)"

definition other_containers :: "string \<Rightarrow> docker_host \<Rightarrow> engine_container list" where
  "other_containers stackName h = filter (\<lambda>c. ec_project c \<noteq> Some stackName) (host_containers h)"

definition requests_for :: "engine_container \<Rightarrow> engine_call list" where
  "requests_for c = [Stop (ec_Id c) 10, Remove (ec_Id c) True True]"

text \<open>
  A host with the stack \<^verbatim>\<open>shop\<close> and a container of another project; each container
  mounts a named volume and an anonymous one.
\<close>

definition shop_host :: docker_host where
  "shop_host =
     \<lparr> host_containers =
         [\<lparr> ec_Id = ''c-db'', ec_project = Some ''shop'', ec_running = True,
             ec_mounts = [''shop_pgdata'', ''4f1c9a''] \<rparr>,
          \<lparr> ec_Id = ''c-blog'', ec_project = Some ''blog'', ec_running = True,
             ec_mounts = [''blog_data'', ''77aa01''] \<rparr>],
       host_volumes =
         [\<lparr> ev_name = ''shop_pgdata'', ev_anonymous = False \<rparr>,
          \<lparr> ev_name = ''4f1c9a'', ev_anonymous = True \<rparr>,
          \<lparr> ev_name = ''blog_data'', ev_anonymous = False \<rparr>,
          \<lparr> ev_name = ''77aa01'', ev_anonymous = True \<rparr>],
       host_list_error = None,
       host_requests = [] \<rparr>"



section \<open>Unfolding sets for concrete runs\<close>

lemmas run_defs =
  archiveContainerInternal_def archive_config_and_volumes_def backup_paths_def
  demo_ext_def shop_containers_def nginx_info_def pg_info_def is_db_image_def startsWith_def
  fresh_world_def path_join_def volume_entry_name_def safeName_def config_entry_def path_entry_def
  replace_all_char_def strip_leading_underscore_def is_sep_def add_trimmed_def set_add_def trim_def
  is_space_def truthy_def Let_def

lemmas job_defs =
  processBackup_def generateBackupFile_def handleUpload_def backup_failed_def basename_def
  set_file_def remove_file_def addHistoryEntry_def updateJobStatus_def history_entry_def
  upload_error_def


lemmas node_defs =
  run_events_def boot_def triggerBackup_def queue_add_def start_next_def start_task_def
  task_done_def resume_running_def job_rejected_def resume_abandoned_def job_resume_def
  exec_resume_def begin_volumes_def next_path_def upload_begin_def upload_failed_def
  upload_sent_def archiving_def live_def owner_def


section \<open>Frame lemmas for the state\<close>

lemma updateJobStatus_fields [simp]:
  "globalState (updateJobStatus jid st msg w)
     = (jid, \<lparr>status = st, message = Some msg, lastUpdated = clock w\<rparr>) # globalState w"
  "backupQueue (updateJobStatus jid st msg w) = backupQueue w"
  "history_file (updateJobStatus jid st msg w) = history_file w"
  "stacks_file (updateJobStatus jid st msg w) = stacks_file w"
  "backups (updateJobStatus jid st msg w) = backups w"
  "clock (updateJobStatus jid st msg w) = clock w"
  by (simp_all add: updateJobStatus_def)

lemma addHistoryEntry_fields [simp]:
  "globalState (addHistoryEntry e w) = globalState w"
  "backupQueue (addHistoryEntry e w) = backupQueue w"
  "history_file (addHistoryEntry e w) = write_history e (history_file w)"
  "stacks_file (addHistoryEntry e w) = stacks_file w"
  "backups (addHistoryEntry e w) = backups w"
  "clock (addHistoryEntry e w) = clock w"
  by (simp_all add: addHistoryEntry_def)

lemma set_file_fields [simp]:
  "globalState (set_file p f w) = globalState w"
  "backupQueue (set_file p f w) = backupQueue w"
  "history_file (set_file p f w) = history_file w"
  "stacks_file (set_file p f w) = stacks_file w"
  "backups (set_file p f w) = (backups w)(p \<mapsto> f)"
  "clock (set_file p f w) = clock w"
  by (simp_all add: set_file_def)

lemma remove_file_fields [simp]:
  "globalState (remove_file p w) = globalState w"
  "backupQueue (remove_file p w) = backupQueue w"
  "history_file (remove_file p w) = history_file w"
  "stacks_file (remove_file p w) = stacks_file w"
  "backups (remove_file p w) = (backups w)(p := None)"
  "clock (remove_file p w) = clock w"
  by (simp_all add: remove_file_def)

lemma map_of_globalState_update:
  "getJobStatus (updateJobStatus jid st msg w) jid
     = Some \<lparr>status = st, message = Some msg, lastUpdated = clock w\<rparr>"
  by (simp add: getJobStatus_def)

lemma getJobStatus_frame [simp]:
  "getJobStatus (addHistoryEntry e w) = getJobStatus w"
  "getJobStatus (set_file p f w) = getJobStatus w"
  "getJobStatus (remove_file p w) = getJobStatus w"
  by (simp_all add: getJobStatus_def fun_eq_iff)

lemma backup_paths_cong:
  assumes "stacks_file w' = stacks_file w"
  shows "backup_paths w' info cp = backup_paths w info cp"
  unfolding backup_paths_def assms ..

section \<open>The archive of one container\<close>

lemma archive_paths_entries:
  "fst (archive_paths ext cid prefix ps aw) = fst aw @ map (path_entry ext cid prefix) ps"
  by (induction ps arbitrary: aw) (simp_all add: Let_def)

lemma archive_paths_frame [simp]:
  "stacks_file (snd (archive_paths ext cid prefix ps aw)) = stacks_file (snd aw)"
  "history_file (snd (archive_paths ext cid prefix ps aw)) = history_file (snd aw)"
  "backups (snd (archive_paths ext cid prefix ps aw)) = backups (snd aw)"
  "clock (snd (archive_paths ext cid prefix ps aw)) = clock (snd aw)"
  by (induction ps arbitrary: aw) (simp_all add: Let_def)

lemma acv_entries:
  "fst (archive_config_and_volumes ext cid prefix cp info aw)
     = fst aw @ config_entry ext prefix cp info (snd aw)
         # (if backup_paths (snd aw) info cp \<noteq> []
            then map (path_entry ext cid prefix) (backup_paths (snd aw) info cp)
            else [(path_join prefix ''volumes_none.txt'', Bytes ''No volumes defined.'')])"
  by (simp add: archive_config_and_volumes_def Let_def archive_paths_entries)

lemma acv_frame [simp]:
  "stacks_file (snd (archive_config_and_volumes ext cid prefix cp info aw)) = stacks_file (snd aw)"
  "history_file (snd (archive_config_and_volumes ext cid prefix cp info aw)) = history_file (snd aw)"
  "backups (snd (archive_config_and_volumes ext cid prefix cp info aw)) = backups (snd aw)"
  "clock (snd (archive_config_and_volumes ext cid prefix cp info aw)) = clock (snd aw)"
  by (simp_all add: archive_config_and_volumes_def Let_def)

lemma aci_nondb:
  "inspect ext cid = Inr info \<Longrightarrow> \<not> is_db_image (info_Image info) \<Longrightarrow>
   archiveContainerInternal ext cid prefix cp aw
     = (None, archive_config_and_volumes ext cid prefix cp info
                (fst aw, updateJobStatus cid Processing ''Step: Inspecting Container...'' (snd aw)))"
  by (simp add: archiveContainerInternal_def Let_def)

lemma aci_db:
  "inspect ext cid = Inr info \<Longrightarrow> is_db_image (info_Image info) \<Longrightarrow>
   archiveContainerInternal ext cid prefix cp aw
     = (let w3 = updateJobStatus cid Processing ''Step: Executing Dump...''
                   (updateJobStatus cid Processing ''Step: DB Strategy Detected''
                      (updateJobStatus cid Processing ''Step: Inspecting Container...'' (snd aw)))
        in case exec_dump ext cid (dump_cmd (info_Image info) (info_Env info)) of
             Exec_rejected e \<Rightarrow> (Some e, fst aw, w3)
           | Exec_timeout \<Rightarrow> (Some ''DB Dump timeout'', fst aw, w3)
           | Exec_done out err \<Rightarrow>
               (if out = [] then (Some ''Empty SQL Dump'', fst aw, w3)
                else (None, archive_config_and_volumes ext cid prefix cp info
                              (fst aw @ [(path_join prefix ''dump.sql'', Bytes out)], w3))))"
  by (simp add: archiveContainerInternal_def Let_def)

lemma aci_frame [simp]:
  "stacks_file (snd (snd (archiveContainerInternal ext cid prefix cp aw))) = stacks_file (snd aw)"
  "history_file (snd (snd (archiveContainerInternal ext cid prefix cp aw))) = history_file (snd aw)"
  "backups (snd (snd (archiveContainerInternal ext cid prefix cp aw))) = backups (snd aw)"
  "clock (snd (snd (archiveContainerInternal ext cid prefix cp aw))) = clock (snd aw)"
  by (simp_all add: archiveContainerInternal_def Let_def
      split: sum.splits exec_outcome.splits)

lemma aci_grows:
  "\<exists>more. fst (snd (archiveContainerInternal ext cid prefix cp aw)) = fst aw @ more"
  by (simp add: archiveContainerInternal_def Let_def acv_entries
      split: sum.splits exec_outcome.splits)

section \<open>Boards with at most one job in progress\<close>

lemma set_processing_ids:
  "jid \<in> set (processing_ids b) \<longleftrightarrow> map_option status (map_of b jid) = Some Processing"
proof -
  have "map_option status (map_of b jid) = Some Processing \<Longrightarrow> jid \<in> fst ` set b"
    by (cases "map_of b jid") (auto dest: map_of_SomeD intro: rev_image_eqI)
  then show ?thesis by (auto simp: processing_ids_def)
qed

lemma distinct_processing_ids: "distinct (processing_ids b)"
  by (simp add: processing_ids_def)

lemma set_processing_Cons:
  "set (processing_ids ((i, js) # b))
     = (if status js = Processing then insert i (set (processing_ids b))
        else set (processing_ids b) - {i})"
  by (auto simp: set_eq_iff set_processing_ids)

lemma processing_ids_length_le1:
  assumes "set (processing_ids b) \<subseteq> A" and "finite A" and "card A \<le> 1"
  shows "length (processing_ids b) \<le> 1"
proof -
  have "card (set (processing_ids b)) \<le> card A" using assms(1,2) by (rule card_mono [rotated])
  then show ?thesis using distinct_card [OF distinct_processing_ids, of b] assms(3) by simp
qed

lemma calm_Cons:
  assumes "calm S' w" and "set (processing_ids ((i, js) # globalState w)) \<subseteq> S"
    and "length (processing_ids ((i, js) # globalState w)) \<le> 1"
    and "globalState w' = (i, js) # globalState w"
  shows "calm S w'"
proof -
  have "length (processing_ids (drop k ((i, js) # globalState w))) \<le> 1" for k
    using assms(1,3) by (cases k) (simp_all add: calm_def)
  then show ?thesis using assms(2,4) by (simp add: calm_def)
qed

lemma calm_update_owner:
  assumes "calm {j} w"
  shows "calm {j} (updateJobStatus j st msg w)"
proof (rule calm_Cons [OF assms])
  let ?js = "\<lparr>status = st, message = Some msg, lastUpdated = clock w\<rparr>"
  show s: "set (processing_ids ((j, ?js) # globalState w)) \<subseteq> {j}"
    using assms by (auto simp: set_processing_Cons calm_def)
  show "length (processing_ids ((j, ?js) # globalState w)) \<le> 1"
    by (rule processing_ids_length_le1 [OF s]) simp_all
  show "globalState (updateJobStatus j st msg w) = (j, ?js) # globalState w" by simp
qed

lemma calm_update_other:
  assumes "calm S w" and "st \<noteq> Processing"
  shows "calm (S - {i}) (updateJobStatus i st msg w)"
proof (rule calm_Cons [OF assms(1)])
  let ?js = "\<lparr>status = st, message = Some msg, lastUpdated = clock w\<rparr>"
  show "set (processing_ids ((i, ?js) # globalState w)) \<subseteq> S - {i}"
    using assms by (auto simp: set_processing_Cons calm_def)
  have "set (processing_ids ((i, ?js) # globalState w)) \<subseteq> set (processing_ids (globalState w))"
    using assms(2) by (auto simp: set_processing_Cons)
  moreover have "card (set (processing_ids (globalState w))) \<le> 1"
    using assms(1) distinct_card [OF distinct_processing_ids, of "globalState w"]
    by (simp add: calm_def) (metis drop0)
  ultimately show "length (processing_ids ((i, ?js) # globalState w)) \<le> 1"
    by (rule processing_ids_length_le1 [OF _ finite_set])
  show "globalState (updateJobStatus i st msg w) = (i, ?js) # globalState w" by simp
qed

lemma calm_mono: "calm S w \<Longrightarrow> S \<subseteq> T \<Longrightarrow> calm T w"
  by (auto simp: calm_def)

lemma calm_update_done:
  "calm {j} w \<Longrightarrow> st \<noteq> Processing \<Longrightarrow> calm {} (updateJobStatus j st msg w)"
  using calm_update_other [of "{j}" w st j msg] by simp

lemma calm_update_pending:
  "calm S w \<Longrightarrow> st \<noteq> Processing \<Longrightarrow> calm S (updateJobStatus i st msg w)"
  using calm_update_other [of S w st i msg] by (auto intro: calm_mono)

lemma calm_update_start:
  "calm {} w \<Longrightarrow> calm {j} (updateJobStatus j st msg w)"
  by (rule calm_update_owner) (erule calm_mono, simp)

lemma calm_frame [simp]:
  "calm S (addHistoryEntry e w) = calm S w"
  "calm S (set_file p f w) = calm S w"
  "calm S (remove_file p w) = calm S w"
  "calm S (w\<lparr>backupQueue := q\<rparr>) = calm S w"
  by (simp_all add: calm_def remove_file_def)

lemma next_path_calm:
  "calm {ex_container ex} w \<Longrightarrow> calm {ex_container ex} (snd (next_path ps ex w))"
  by (simp add: next_path_def calm_update_owner split: list.splits)

lemma next_path_container [simp]:
  "ex_container (fst (next_path ps ex w)) = ex_container ex"
  by (simp add: next_path_def split: list.splits)

lemma begin_volumes_calm:
  "calm {ex_container ex} w \<Longrightarrow> calm {ex_container ex} (snd (begin_volumes ext info ex w))"
  using next_path_calm [of "ex\<lparr>ex_archive := a\<rparr>" w for a]
  by (simp add: begin_volumes_def Let_def)

lemma begin_volumes_container [simp]:
  "ex_container (fst (begin_volumes ext info ex w)) = ex_container ex"
  by (simp add: begin_volumes_def Let_def)

lemma exec_resume_calm:
  "calm {ex_container ex} w \<Longrightarrow> calm {ex_container ex} (snd (exec_resume ext ex w))"
  using begin_volumes_calm [of "ex\<lparr>ex_archive := a\<rparr>" w for a] begin_volumes_calm [of ex w]
    next_path_calm [of "ex\<lparr>ex_archive := a\<rparr>" w for a]
  by (simp add: exec_resume_def Let_def calm_update_owner
      split: exec_pc.splits sum.splits exec_outcome.splits)

lemma exec_resume_container [simp]:
  "ex_container (fst (exec_resume ext ex w)) = ex_container ex"
  by (simp add: exec_resume_def Let_def split: exec_pc.splits sum.splits exec_outcome.splits)

lemma backup_failed_calm: "calm {j} w \<Longrightarrow> calm {} (backup_failed ext j m w)"
  by (simp add: backup_failed_def Let_def calm_update_done)

lemma upload_failed_calm: "calm {j} w \<Longrightarrow> calm {} (upload_failed ext j p m w)"
  by (simp add: upload_failed_def Let_def calm_update_done)

lemma upload_sent_calm: "calm {j} w \<Longrightarrow> calm {} (upload_sent ext j p sz w)"
  by (simp add: upload_sent_def Let_def calm_update_done)

lemma upload_begin_calm:
  assumes "calm {j} w" and "upload_begin ext j p w = (r, w')"
  shows "(r = None \<longrightarrow> calm {} w') \<and> (\<forall>pc. r = Some pc \<longrightarrow> calm {j} w' \<and> (\<forall>ex. pc \<noteq> InArchive ex))"
proof -
  have u: "calm {j} (updateJobStatus j Uploading msg w)" for msg
    using assms(1) by (rule calm_update_owner)
  have c: "calm {} (updateJobStatus j Completed msg w)" for msg
    using assms(1) by (rule calm_update_done) simp
  have c1: "calm {j} (updateJobStatus j Completed msg w)" for msg
    using assms(1) by (rule calm_update_owner)
  show ?thesis
    using assms(2) u c
      upload_failed_calm [OF u, where ext = ext and p = p]
      backup_failed_calm [OF c1, where ext = ext]
    by (auto simp: upload_begin_def Let_def split: if_splits option.splits)
qed

lemma job_resume_calm:
  assumes c: "calm {job_id j} w"
    and a: "\<forall>ex. job_pc j = InArchive ex \<longrightarrow> ex_container ex = job_id j"
    and r: "job_resume ext j w = (r, w')"
  shows "(r = None \<longrightarrow> calm {} w')
       \<and> (\<forall>j'. r = Some j' \<longrightarrow> calm {job_id j} w' \<and> job_id j' = job_id j
               \<and> (\<forall>ex. job_pc j' = InArchive ex \<longrightarrow> ex_container ex = job_id j))"
proof (cases "job_pc j")
  case InInspect
  show ?thesis
    using r c InInspect
    by (auto simp: job_resume_def Let_def backup_failed_calm calm_update_owner split: sum.splits)
next
  case (InArchive ex)
  with a have e: "ex_container ex = job_id j" by simp
  show ?thesis
  proof (cases "ex_pc ex = AwaitClose")
    case True
    obtain r0 w0 where u: "upload_begin ext (job_id j) (ex_file ex)
                             (set_file (ex_file ex) (Finalized (ex_archive ex)) w) = (r0, w0)"
      by (cases "upload_begin ext (job_id j) (ex_file ex)
                   (set_file (ex_file ex) (Finalized (ex_archive ex)) w)")
    have "calm {job_id j} (set_file (ex_file ex) (Finalized (ex_archive ex)) w)" using c by simp
    from upload_begin_calm [OF this u] show ?thesis
      using r InArchive True u by (auto simp: job_resume_def Let_def split: option.splits)
  next
    case False
    have ec: "calm {job_id j} (snd (exec_resume ext ex w))"
      using exec_resume_calm [of ex w ext] c e by simp
    show ?thesis
      using r InArchive False c e ec
      by (cases "exec_resume ext ex w")
         (auto simp: job_resume_def Let_def split: exec_pc.splits dest: arg_cong [where f = "\<lambda>p. ex_container (fst p)"])
  qed
next
  case (InFetch p sz)
  show ?thesis
    using r c InFetch
    by (auto simp: job_resume_def Let_def upload_failed_calm upload_sent_calm
        split: fetch_outcome.splits if_splits)
next
  case (InText p code body)
  show ?thesis
    using r c InText by (auto simp: job_resume_def Let_def upload_failed_calm)
qed


lemma owner_simps [simp]:
  "owner (n\<lparr>store := w\<rparr>) = owner n"
  "owner (n\<lparr>abandoned := a\<rparr>) = owner n"
  "owner (n\<lparr>running := None\<rparr>) = {}"
  "owner (n\<lparr>running := Some j\<rparr>) = {job_id j}"
  by (simp_all add: owner_def)

lemma serial_inv_start_next:
  assumes c: "calm {} (store n)" and r: "running n = None"
    and a: "\<forall>ex \<in> set (abandoned n). \<not> live (ex_pc ex)"
  shows "serial_inv (start_next n)"
proof (cases "backupQueue (store n)")
  case Nil
  then show ?thesis using c r a by (simp add: start_next_def serial_inv_def owner_def)
next
  case (Cons t ts)
  obtain jid cp where t: "t = BackupTask jid cp" by (cases t)
  have "calm {jid} (updateJobStatus jid Processing ''Identifying...'' ((store n)\<lparr>backupQueue := ts\<rparr>))"
    by (rule calm_update_start) (simp add: c)
  then show ?thesis
    using r a Cons t by (simp add: start_next_def start_task_def serial_inv_def)
qed

lemma serial_inv_start_next_any: "serial_inv n \<Longrightarrow> serial_inv (start_next n)"
proof (cases "running n")
  case None
  assume i: "serial_inv n"
  with None have "calm {} (store n)" by (simp add: serial_inv_def owner_def)
  then show ?thesis using None i by (intro serial_inv_start_next) (simp_all add: serial_inv_def)
next
  case (Some j)
  assume "serial_inv n"
  with Some show ?thesis by (simp add: start_next_def)
qed

lemma serial_inv_task_done:
  "calm {} (store n) \<Longrightarrow> \<forall>ex \<in> set (abandoned n). \<not> live (ex_pc ex) \<Longrightarrow> serial_inv (task_done n)"
  unfolding task_done_def by (rule serial_inv_start_next) simp_all

lemma serial_inv_queue_add: "serial_inv n \<Longrightarrow> serial_inv (queue_add t n)"
  unfolding queue_add_def by (rule serial_inv_start_next_any) (simp add: serial_inv_def)

lemma serial_inv_pending:
  "serial_inv n \<Longrightarrow> serial_inv (n\<lparr>store := updateJobStatus jid Pending msg (store n)\<rparr>)"
  by (simp add: serial_inv_def calm_update_pending)

lemma serial_inv_triggerBackup: "serial_inv n \<Longrightarrow> serial_inv (triggerBackup ids m n)"
  unfolding triggerBackup_def
  by (induction ids arbitrary: n) (simp_all add: serial_inv_pending serial_inv_queue_add)

lemma serial_inv_resume_running: "serial_inv n \<Longrightarrow> serial_inv (resume_running ext n)"
proof (cases "running n")
  case None
  assume "serial_inv n"
  with None show ?thesis by (simp add: resume_running_def)
next
  case (Some j)
  assume i: "serial_inv n"
  obtain r w' where jr: "job_resume ext j (store n) = (r, w')" by (cases "job_resume ext j (store n)")
  from i Some have c: "calm {job_id j} (store n)"
    and a: "\<forall>ex. job_pc j = InArchive ex \<longrightarrow> ex_container ex = job_id j"
    and ab: "\<forall>ex \<in> set (abandoned n). \<not> live (ex_pc ex)"
    by (simp_all add: serial_inv_def owner_def)
  note res = job_resume_calm [OF c a jr]
  show ?thesis
  proof (cases r)
    case None
    with res have "calm {} w'" by simp
    then have "serial_inv (task_done (n\<lparr>store := w'\<rparr>))" using ab by (intro serial_inv_task_done) simp_all
    then show ?thesis using Some jr None by (simp add: resume_running_def)
  next
    case (Some j')
    with res have "calm {job_id j} w'" "job_id j' = job_id j"
      "\<forall>ex. job_pc j' = InArchive ex \<longrightarrow> ex_container ex = job_id j" by simp_all
    then show ?thesis using \<open>running n = Some j\<close> jr Some ab
      by (simp add: resume_running_def serial_inv_def)
  qed
qed

lemma serial_inv_job_rejected:
  assumes i: "serial_inv n" and t: "\<not> archiving n"
  shows "serial_inv (job_rejected ext msg n)"
proof (cases "running n")
  case None
  then show ?thesis using i by (simp add: job_rejected_def)
next
  case (Some j)
  from i Some have c: "calm {job_id j} (store n)"
    and ab: "\<forall>ex \<in> set (abandoned n). \<not> live (ex_pc ex)"
    by (simp_all add: serial_inv_def owner_def)
  show ?thesis
  proof (cases "job_pc j")
    case (InArchive ex)
    with t Some have nl: "\<not> live (ex_pc ex)" by (simp add: archiving_def)
    have "calm {} (backup_failed ext (job_id j) msg
                     (set_file (ex_file ex) (Unfinished (ex_archive ex)) (store n)))"
      by (rule backup_failed_calm) (simp add: c)
    then have "serial_inv (task_done
                 (n\<lparr>store := backup_failed ext (job_id j) msg
                               (set_file (ex_file ex) (Unfinished (ex_archive ex)) (store n)),
                    abandoned := abandoned n @ [ex]\<rparr>))"
      using ab nl by (intro serial_inv_task_done) simp_all
    then show ?thesis using Some InArchive by (simp add: job_rejected_def)
  qed (use i Some in \<open>simp_all add: job_rejected_def\<close>)
qed

lemma serial_inv_resume_abandoned: "serial_inv n \<Longrightarrow> serial_inv (resume_abandoned ext i n)"
proof (cases "i < length (abandoned n)")
  case False
  assume "serial_inv n"
  with False show ?thesis by (simp add: resume_abandoned_def)
next
  case True
  assume inv: "serial_inv n"
  then have nl: "\<not> live (ex_pc (abandoned n ! i))" using True by (simp add: serial_inv_def)
  have sub: "set (take i (abandoned n) @ drop (Suc i) (abandoned n)) \<subseteq> set (abandoned n)"
    by (auto dest: in_set_takeD in_set_dropD)
  show ?thesis
    using inv True nl sub
    by (cases "ex_pc (abandoned n ! i)")
       (auto simp: resume_abandoned_def Let_def serial_inv_def live_def)
qed

lemma serial_inv_node_step:
  assumes "serial_inv n"
    and "case ev of Timeout \<Rightarrow> \<not> archiving n | ArchiveError msg \<Rightarrow> \<not> archiving n | _ \<Rightarrow> True"
  shows "serial_inv (node_step ext n ev)"
  using assms
  by (cases ev)
     (simp_all add: serial_inv_triggerBackup serial_inv_resume_running serial_inv_job_rejected
        serial_inv_resume_abandoned)

lemma serial_inv_run_events:
  "serial_inv n \<Longrightarrow> timely ext n evs \<Longrightarrow> serial_inv (run_events ext evs n)"
  unfolding run_events_def
proof (induction evs arbitrary: n)
  case Nil
  then show ?case by simp
next
  case (Cons ev evs)
  from Cons.prems have "serial_inv (node_step ext n ev)"
    by (intro serial_inv_node_step) simp_all
  with Cons.IH Cons.prems(2) show ?case by simp
qed

lemma serial_inv_boot: "globalState w = [] \<Longrightarrow> serial_inv (boot w)"
  by (simp add: serial_inv_def boot_def owner_def calm_def processing_ids_def)


section \<open>Uninterrupted runs of the event loop\<close>

lemma run_events_append:
  "run_events ext (evs1 @ evs2) n = run_events ext evs2 (run_events ext evs1 n)"
  by (simp add: run_events_def)

lemma run_events_Cons: "run_events ext (ev # evs) n = run_events ext evs (node_step ext n ev)"
  by (simp add: run_events_def)

lemma run_events_Nil: "run_events ext [] n = n"
  by (simp add: run_events_def)

lemma timely_append:
  "timely ext n (evs1 @ evs2) = (timely ext n evs1 \<and> timely ext (run_events ext evs1 n) evs2)"
  by (induction evs1 arbitrary: n) (simp_all add: run_events_Nil run_events_Cons)

lemma timely_resumes: "timely ext n (replicate k Resume)"
  by (induction k arbitrary: n) simp_all

lemma resumes_trans:
  assumes "\<exists>k. run_events ext (replicate k Resume) n = n'"
    and "\<exists>k. run_events ext (replicate k Resume) n' = n''"
  shows "\<exists>k. run_events ext (replicate k Resume) n = n''"
proof -
  from assms obtain k1 k2 where
    "run_events ext (replicate k1 Resume) n = n'" "run_events ext (replicate k2 Resume) n' = n''"
    by (elim exE)
  then have "run_events ext (replicate (k1 + k2) Resume) n = n''"
    by (simp add: replicate_add run_events_append)
  then show ?thesis by (rule exI)
qed

lemma resumes_step:
  assumes "node_step ext n Resume = n'" and "\<exists>k. run_events ext (replicate k Resume) n' = n''"
  shows "\<exists>k. run_events ext (replicate k Resume) n = n''"
proof -
  from assms(2) obtain k where "run_events ext (replicate k Resume) n' = n''" by (elim exE)
  with assms(1) have "run_events ext (replicate (Suc k) Resume) n = n''"
    by (simp add: run_events_Cons)
  then show ?thesis by (rule exI)
qed

lemma resumes_refl: "\<exists>k. run_events ext (replicate k Resume) n = n"
  by (rule exI [of _ 0]) (simp add: run_events_Nil)

lemma step_getArchive:
  "node_step ext (archive_node w jid cp fp a (AwaitGetArchive p rest) ab) Resume
     = (case rest of
          [] \<Rightarrow> archive_node w jid cp fp (a @ [path_entry ext jid [] p]) AwaitClose ab
        | q # qs \<Rightarrow>
            archive_node (updateJobStatus jid Processing (''Archiving: '' @ q) w) jid cp fp
              (a @ [path_entry ext jid [] p]) (AwaitGetArchive q qs) ab)"
  by (simp add: archive_node_def resume_running_def job_resume_def exec_resume_def next_path_def
      Let_def split: list.splits)

lemma run_paths:
  "\<exists>k. run_events ext (replicate k Resume) (archive_node w jid cp fp a (AwaitGetArchive p rest) ab)
     = archive_node (snd (archive_paths ext jid [] rest (a @ [path_entry ext jid [] p], w))) jid cp fp
         (fst (archive_paths ext jid [] rest (a @ [path_entry ext jid [] p], w))) AwaitClose ab"
proof (induction rest arbitrary: p a w)
  case Nil
  show ?case
    apply (rule resumes_step [OF step_getArchive])
    apply (simp add: resumes_refl)
    done
next
  case (Cons q qs)
  show ?case
    apply (rule resumes_step [OF step_getArchive])
    using Cons [where w = "updateJobStatus jid Processing (''Archiving: '' @ q) w"
                  and a = "a @ [path_entry ext jid [] p]" and p = q]
    apply (simp add: Let_def)
    done
qed


lemma begin_volumes_node:
  "(case begin_volumes ext info
           \<lparr> ex_container = jid, ex_customPaths = cp, ex_file = fp, ex_archive = a, ex_pc = pc0 \<rparr> w of
      (ex', w') \<Rightarrow>
        \<lparr> store = w',
          running = Some \<lparr> job_id = jid, job_customPaths = cp, job_pc = InArchive ex' \<rparr>,
          abandoned = ab \<rparr>)
     = (case backup_paths w info cp of
          [] \<Rightarrow>
            archive_node w jid cp fp
              (a @ [config_entry ext [] cp info w,
                    (path_join [] ''volumes_none.txt'', Bytes ''No volumes defined.'')])
              AwaitClose ab
        | p # rest \<Rightarrow>
            archive_node (updateJobStatus jid Processing (''Archiving: '' @ p) w) jid cp fp
              (a @ [config_entry ext [] cp info w]) (AwaitGetArchive p rest) ab)"
  by (simp add: begin_volumes_def next_path_def archive_node_def Let_def split: list.splits)

lemma run_volumes:
  "\<exists>k. run_events ext (replicate k Resume)
          (case begin_volumes ext info
                  \<lparr> ex_container = jid, ex_customPaths = cp, ex_file = fp, ex_archive = a,
                    ex_pc = pc0 \<rparr> w of
             (ex', w') \<Rightarrow>
               \<lparr> store = w',
                 running = Some \<lparr> job_id = jid, job_customPaths = cp, job_pc = InArchive ex' \<rparr>,
                 abandoned = ab \<rparr>)
     = archive_node (snd (archive_config_and_volumes ext jid [] cp info (a, w))) jid cp fp
         (fst (archive_config_and_volumes ext jid [] cp info (a, w))) AwaitClose ab"
proof (cases "backup_paths w info cp")
  case Nil
  then show ?thesis
    unfolding begin_volumes_node
    by (simp add: archive_config_and_volumes_def Let_def resumes_refl)
next
  case (Cons p rest)
  from run_paths [where ext = ext and w = "updateJobStatus jid Processing (''Archiving: '' @ p) w"
                    and jid = jid and cp = cp and fp = fp
                    and a = "a @ [config_entry ext [] cp info w]" and p = p and rest = rest
                    and ab = ab]
  show ?thesis
    unfolding begin_volumes_node using Cons
    by (simp add: archive_config_and_volumes_def Let_def)
qed

lemma step_inspect:
  "node_step ext (archive_node w jid cp fp a AwaitInspect ab) Resume
     = (case inspect ext jid of
          Inl e \<Rightarrow> archive_node w jid cp fp a (Thrown e) ab
        | Inr info \<Rightarrow>
            (if is_db_image (info_Image info)
             then archive_node
                    (updateJobStatus jid Processing ''Step: Executing Dump...''
                       (updateJobStatus jid Processing ''Step: DB Strategy Detected'' w))
                    jid cp fp a (AwaitDump info) ab
             else (case begin_volumes ext info
                          \<lparr> ex_container = jid, ex_customPaths = cp, ex_file = fp, ex_archive = a,
                            ex_pc = AwaitInspect \<rparr> w of
                     (ex', w') \<Rightarrow>
                       \<lparr> store = w',
                         running = Some \<lparr> job_id = jid, job_customPaths = cp,
                                          job_pc = InArchive ex' \<rparr>,
                         abandoned = ab \<rparr>)))"
  by (simp add: archive_node_def resume_running_def job_resume_def exec_resume_def Let_def
      split: sum.splits prod.splits)

lemma step_dump:
  "node_step ext (archive_node w jid cp fp a (AwaitDump info) ab) Resume
     = (case exec_dump ext jid (dump_cmd (info_Image info) (info_Env info)) of
          Exec_rejected e \<Rightarrow> archive_node w jid cp fp a (Thrown e) ab
        | Exec_timeout \<Rightarrow> archive_node w jid cp fp a (Thrown ''DB Dump timeout'') ab
        | Exec_done out err \<Rightarrow>
            (if out = [] then archive_node w jid cp fp a (Thrown ''Empty SQL Dump'') ab
             else (case begin_volumes ext info
                          \<lparr> ex_container = jid, ex_customPaths = cp, ex_file = fp,
                            ex_archive = a @ [(path_join [] ''dump.sql'', Bytes out)],
                            ex_pc = AwaitDump info \<rparr> w of
                     (ex', w') \<Rightarrow>
                       \<lparr> store = w',
                         running = Some \<lparr> job_id = jid, job_customPaths = cp,
                                          job_pc = InArchive ex' \<rparr>,
                         abandoned = ab \<rparr>)))"
  by (simp add: archive_node_def resume_running_def job_resume_def exec_resume_def Let_def
      split: exec_outcome.splits prod.splits)

lemma run_archive:
  "\<exists>k. run_events ext (replicate k Resume)
          (archive_node (updateJobStatus jid Processing ''Step: Inspecting Container...'' w)
             jid cp fp a AwaitInspect ab)
     = archive_node (snd (snd (archiveContainerInternal ext jid [] cp (a, w)))) jid cp fp
         (fst (snd (archiveContainerInternal ext jid [] cp (a, w))))
         (case fst (archiveContainerInternal ext jid [] cp (a, w)) of
            None \<Rightarrow> AwaitClose
          | Some m \<Rightarrow> Thrown m)
         ab"
proof (cases "inspect ext jid")
  case (Inl e)
  show ?thesis
    apply (rule resumes_step [OF step_inspect])
    apply (simp add: Inl archiveContainerInternal_def resumes_refl)
    done
next
  case (Inr info)
  let ?w1 = "updateJobStatus jid Processing ''Step: Inspecting Container...'' w"
  show ?thesis
  proof (cases "is_db_image (info_Image info)")
    case False
    from run_volumes [where ext = ext and info = info and jid = jid and cp = cp and fp = fp
                        and a = a and ?pc0.0 = AwaitInspect and w = ?w1 and ab = ab]
    show ?thesis
      apply (intro resumes_step [OF step_inspect])
      apply (simp add: Inr False aci_nondb [OF Inr False])
      done
  next
    case True
    let ?w3 = "updateJobStatus jid Processing ''Step: Executing Dump...''
                 (updateJobStatus jid Processing ''Step: DB Strategy Detected'' ?w1)"
    show ?thesis
    proof (cases "exec_dump ext jid (dump_cmd (info_Image info) (info_Env info))")
      case (Exec_rejected e)
      show ?thesis
        apply (rule resumes_step [OF step_inspect])
        apply (simp add: Inr True)
        apply (rule resumes_step [OF step_dump])
        apply (simp add: Exec_rejected aci_db [OF Inr True] resumes_refl)
        done
    next
      case Exec_timeout
      show ?thesis
        apply (rule resumes_step [OF step_inspect])
        apply (simp add: Inr True)
        apply (rule resumes_step [OF step_dump])
        apply (simp add: Exec_timeout aci_db [OF Inr True] resumes_refl)
        done
    next
      case (Exec_done out err)
      show ?thesis
      proof (cases "out = []")
        case True
        show ?thesis
          apply (rule resumes_step [OF step_inspect])
          apply (simp add: Inr \<open>is_db_image (info_Image info)\<close>)
          apply (rule resumes_step [OF step_dump])
          apply (simp add: Exec_done True aci_db [OF Inr \<open>is_db_image (info_Image info)\<close>] resumes_refl)
          done
      next
        case False
        from run_volumes [where ext = ext and info = info and jid = jid and cp = cp and fp = fp
                        and a = "a @ [(path_join [] ''dump.sql'', Bytes out)]"
                        and ?pc0.0 = "AwaitDump info" and w = ?w3 and ab = ab]
        show ?thesis
          apply (intro resumes_step [OF step_inspect])
          apply (simp add: Inr \<open>is_db_image (info_Image info)\<close>)
          apply (rule resumes_step [OF step_dump])
          apply (simp add: Exec_done False aci_db [OF Inr \<open>is_db_image (info_Image info)\<close>])
          done
      qed
    qed
  qed
qed


lemma archive_paths_queue [simp]:
  "backupQueue (snd (archive_paths ext cid prefix ps aw)) = backupQueue (snd aw)"
  by (induction ps arbitrary: aw) (simp_all add: Let_def)

lemma aci_queue [simp]:
  "backupQueue (snd (snd (archiveContainerInternal ext cid prefix cp aw))) = backupQueue (snd aw)"
  by (simp add: archiveContainerInternal_def archive_config_and_volumes_def Let_def
      split: sum.splits exec_outcome.splits)

lemma step_close:
  "node_step ext (archive_node w jid cp fp a AwaitClose ab) Resume
     = (case upload_begin ext jid fp (set_file fp (Finalized a) w) of
          (None, w2) \<Rightarrow>
            task_done \<lparr> store = w2,
                        running = Some \<lparr> job_id = jid, job_customPaths = cp,
                                         job_pc = InArchive \<lparr> ex_container = jid, ex_customPaths = cp,
                                                               ex_file = fp, ex_archive = a,
                                                               ex_pc = AwaitClose \<rparr> \<rparr>,
                        abandoned = ab \<rparr>
        | (Some pc, w2) \<Rightarrow>
            \<lparr> store = w2, running = Some \<lparr> job_id = jid, job_customPaths = cp, job_pc = pc \<rparr>,
              abandoned = ab \<rparr>)"
  by (simp add: archive_node_def resume_running_def job_resume_def Let_def split: prod.splits option.splits)

lemma run_upload:
  assumes q: "backupQueue w = []"
  shows "\<exists>k. run_events ext (replicate k Resume) (archive_node w jid cp fp a AwaitClose ab)
     = \<lparr> store = (case handleUpload ext jid fp (set_file fp (Finalized a) w) of
                    (Some e, w4) \<Rightarrow> backup_failed ext jid e w4
                  | (None, w4) \<Rightarrow> w4),
         running = None, abandoned = ab \<rparr>"
proof (cases "truthy (TELEGRAM_TOKEN ext) \<and> truthy (CHAT_ID ext)")
  case False
  then have t: "(truthy (TELEGRAM_TOKEN ext) \<and> truthy (CHAT_ID ext)) = False" by simp
  show ?thesis
    apply (rule exI [of _ "Suc 0"])
    apply (simp add: t q run_events_def step_close upload_begin_def handleUpload_def task_done_def
        start_next_def Let_def del: node_step.simps)
    done
next
  case True
  then have t: "(truthy (TELEGRAM_TOKEN ext) \<and> truthy (CHAT_ID ext)) = True" by simp
  show ?thesis
  proof (cases "sendDocument ext (basename fp)")
    case (Fetch_throws m)
    show ?thesis
      apply (rule exI [of _ "Suc (Suc 0)"])
      apply (simp add: t q Fetch_throws run_events_def step_close upload_begin_def handleUpload_def
          task_done_def start_next_def upload_error_def Let_def del: node_step.simps)
      apply (simp add: q Fetch_throws resume_running_def job_resume_def upload_failed_def
          task_done_def start_next_def Let_def)
      done
  next
    case (Fetch_response ok code body)
    show ?thesis
    proof (cases ok)
      case True
      show ?thesis
        apply (rule exI [of _ "Suc (Suc 0)"])
        apply (simp add: t q Fetch_response True run_events_def step_close upload_begin_def
            handleUpload_def task_done_def start_next_def upload_error_def Let_def
            del: node_step.simps)
        apply (simp add: q Fetch_response True resume_running_def job_resume_def upload_sent_def
            task_done_def start_next_def Let_def)
        done
    next
      case False
      show ?thesis
        apply (rule exI [of _ "Suc (Suc (Suc 0))"])
        apply (simp add: t q Fetch_response False run_events_def step_close upload_begin_def
            handleUpload_def task_done_def start_next_def upload_error_def Let_def
            del: node_step.simps)
        apply (simp add: q Fetch_response False resume_running_def job_resume_def upload_failed_def
            task_done_def start_next_def Let_def)
        done
    qed
  qed
qed

lemma step_start:
  assumes q: "backupQueue w = []"
  shows "node_step ext (start_task (BackupTask jid cp) (boot w)) Resume
     = (case inspect ext jid of
          Inl e \<Rightarrow>
            \<lparr> store = backup_failed ext jid e (updateJobStatus jid Processing ''Identifying...'' w),
              running = None, abandoned = [] \<rparr>
        | Inr info \<Rightarrow>
            archive_node
              (updateJobStatus jid Processing ''Step: Inspecting Container...''
                 (set_file (''backups/'' @ replace_first (info_Name info) ''/'' [] @ ''_''
                              @ show_nat (clock w) @ ''.zip'') (Unfinished [])
                    (updateJobStatus jid Processing ''Identifying...'' w)))
              jid cp
              (''backups/'' @ replace_first (info_Name info) ''/'' [] @ ''_''
                 @ show_nat (clock w) @ ''.zip'')
              [] AwaitInspect [])"
  using q
  by (simp add: start_task_def boot_def resume_running_def job_resume_def archive_node_def
      task_done_def start_next_def backup_failed_def Let_def split: sum.splits)

lemma step_timeout:
  assumes q: "backupQueue w = []"
  shows "node_step ext (archive_node w jid cp fp a (Thrown m) ab) Timeout
     = \<lparr> store = backup_failed ext jid ''Backup timed out'' (set_file fp (Unfinished a) w),
         running = None,
         abandoned = ab @ [\<lparr> ex_container = jid, ex_customPaths = cp, ex_file = fp, ex_archive = a,
                              ex_pc = Thrown m \<rparr>] \<rparr>"
  using q
  by (simp add: archive_node_def job_rejected_def task_done_def start_next_def backup_failed_def Let_def)

text \<open>
  A backup that nothing interleaves with, started on an empty queue and resumed until it
  has returned, or until its executor has thrown and the timer has fired, leaves the state
  that \<^verbatim>\<open>processBackup\<close> computes in one piece; the run is timely.
\<close>

lemma processBackup_is_uninterrupted_run:
  assumes q: "backupQueue w = []"
  shows "\<exists>k tm.
           timely ext (start_task (BackupTask jid cp) (boot w))
             (replicate k Resume @ (if tm then [Timeout] else []))
         \<and> store (run_events ext (replicate k Resume @ (if tm then [Timeout] else []))
                    (start_task (BackupTask jid cp) (boot w)))
             = processBackup ext jid cp w
         \<and> running (run_events ext (replicate k Resume @ (if tm then [Timeout] else []))
                      (start_task (BackupTask jid cp) (boot w)))
             = None"
proof (cases "inspect ext jid")
  case (Inl e)
  show ?thesis
    apply (rule exI [of _ "Suc 0"])
    apply (rule exI [of _ False])
    apply (simp add: run_events_def step_start [OF q] Inl processBackup_def generateBackupFile_def
        Let_def del: node_step.simps)
    done
next
  case (Inr info)
  let ?n0 = "start_task (BackupTask jid cp) (boot w)"
  let ?w1 = "updateJobStatus jid Processing ''Identifying...'' w"
  let ?fp = "''backups/'' @ replace_first (info_Name info) ''/'' [] @ ''_'' @ show_nat (clock w) @ ''.zip''"
  let ?w2 = "set_file ?fp (Unfinished []) ?w1"
  let ?R = "archiveContainerInternal ext jid [] cp ([], ?w2)"
  have s0: "node_step ext ?n0 Resume
              = archive_node (updateJobStatus jid Processing ''Step: Inspecting Container...'' ?w2)
                  jid cp ?fp [] AwaitInspect []"
    by (simp add: step_start [OF q] Inr del: node_step.simps)
  from run_archive [where ext = ext and jid = jid and w = ?w2 and cp = cp and fp = ?fp
                      and a = "[]" and ab = "[]"]
  obtain k1 where k1:
    "run_events ext (replicate k1 Resume)
       (archive_node (updateJobStatus jid Processing ''Step: Inspecting Container...'' ?w2)
          jid cp ?fp [] AwaitInspect [])
      = archive_node (snd (snd ?R)) jid cp ?fp (fst (snd ?R))
          (case fst ?R of None \<Rightarrow> AwaitClose | Some m \<Rightarrow> Thrown m) []"
    by (elim exE)
  have r1: "run_events ext (replicate (Suc k1) Resume) ?n0
      = archive_node (snd (snd ?R)) jid cp ?fp (fst (snd ?R))
          (case fst ?R of None \<Rightarrow> AwaitClose | Some m \<Rightarrow> Thrown m) []"
    by (simp only: replicate_Suc run_events_Cons s0 k1)
  have q3: "backupQueue (snd (snd ?R)) = []" using q by simp
  show ?thesis
  proof (cases "fst ?R")
    case None
    from run_upload [OF q3, where ext = ext and jid = jid and cp = cp and fp = ?fp
                       and a = "fst (snd ?R)" and ab = "[]"]
    obtain k2 where k2:
      "run_events ext (replicate k2 Resume)
         (archive_node (snd (snd ?R)) jid cp ?fp (fst (snd ?R)) AwaitClose [])
        = \<lparr> store = (case handleUpload ext jid ?fp (set_file ?fp (Finalized (fst (snd ?R))) (snd (snd ?R))) of
                       (Some e, w4) \<Rightarrow> backup_failed ext jid e w4
                     | (None, w4) \<Rightarrow> w4),
            running = None, abandoned = [] \<rparr>"
      by (elim exE)
    have r2: "run_events ext (replicate (Suc k1 + k2) Resume) ?n0
        = \<lparr> store = (case handleUpload ext jid ?fp (set_file ?fp (Finalized (fst (snd ?R))) (snd (snd ?R))) of
                       (Some e, w4) \<Rightarrow> backup_failed ext jid e w4
                     | (None, w4) \<Rightarrow> w4),
            running = None, abandoned = [] \<rparr>"
      by (simp only: replicate_add run_events_append r1 None option.case k2)
    have pb: "processBackup ext jid cp w
        = (case handleUpload ext jid ?fp (set_file ?fp (Finalized (fst (snd ?R))) (snd (snd ?R))) of
             (Some e, w4) \<Rightarrow> backup_failed ext jid e w4
           | (None, w4) \<Rightarrow> w4)"
      using None by (cases ?R) (simp add: processBackup_def generateBackupFile_def Inr Let_def)
    show ?thesis
      apply (rule exI [of _ "Suc k1 + k2"])
      apply (rule exI [of _ False])
      apply (simp only: if_False append_Nil2 r2 pb timely_resumes)
      apply simp
      done
  next
    case (Some m)
    have r2: "run_events ext (replicate (Suc k1) Resume @ [Timeout]) ?n0
        = \<lparr> store = backup_failed ext jid ''Backup timed out''
                      (set_file ?fp (Unfinished (fst (snd ?R))) (snd (snd ?R))),
            running = None,
            abandoned = [] @ [\<lparr> ex_container = jid, ex_customPaths = cp, ex_file = ?fp,
                                 ex_archive = fst (snd ?R), ex_pc = Thrown m \<rparr>] \<rparr>"
      by (simp only: run_events_append r1 Some option.case run_events_Cons run_events_Nil
          step_timeout [OF q3])
    have pb: "processBackup ext jid cp w
        = backup_failed ext jid ''Backup timed out''
            (set_file ?fp (Unfinished (fst (snd ?R))) (snd (snd ?R)))"
      using Some by (cases ?R) (simp add: processBackup_def generateBackupFile_def Inr Let_def)
    have tm: "timely ext ?n0 (replicate (Suc k1) Resume @ [Timeout])"
      by (simp only: timely_append timely_resumes r1 Some option.case)
         (simp add: archiving_def archive_node_def live_def)
    show ?thesis
      apply (rule exI [of _ "Suc k1"])
      apply (rule exI [of _ True])
      apply (simp only: if_True r2 pb tm)
      apply simp
      done
  qed
qed


section \<open>Shape of the archives\<close>

lemma backup_paths_frame [simp]:
  "backup_paths (updateJobStatus jid st msg w) info cp = backup_paths w info cp"
  "backup_paths (set_file p f w) info cp = backup_paths w info cp"
  "backup_paths (addHistoryEntry e w) info cp = backup_paths w info cp"
  by (rule backup_paths_cong, simp)+

lemma hd_unshift_bounded: "hd (unshift_bounded e h) = e"
  by (cases h) (simp_all add: unshift_bounded_def Let_def)

lemma hd_getHistory_add: "hd (getHistory (addHistoryEntry e w)) = e"
  by (simp add: getHistory_def write_history_def read_history_def hd_unshift_bounded)

lemma stack_header_first:
  "\<exists>rest. map fst (fst (stack_header ext vid sn scs w)) = ''stack_metadata.json'' # rest"
  by (simp add: stack_header_def Let_def split: option.splits sum.splits)

lemma archive_services_grows:
  "\<exists>more. fst (snd (archive_services ext vid n i cs aw)) = fst aw @ more"
proof (induction cs arbitrary: aw i)
  case Nil
  show ?case by simp
next
  case (Cons c cs)
  let ?w1 = "updateJobStatus vid Processing
                 (''Archiving Service ['' @ show_nat (i + 1) @ ''/'' @ show_nat n @ '']: '' @ container_name c)
                 (snd aw)"
  let ?r = "archiveContainerInternal ext (c_Id c) (''services/'' @ container_name c) None (fst aw, ?w1)"
  obtain m1 where m1: "fst (snd ?r) = fst aw @ m1"
    using aci_grows [of ext "c_Id c" _ None "(fst aw, ?w1)"] by auto
  show ?case
  proof (cases "fst ?r")
    case (Some e)
    then show ?thesis using m1 by (cases ?r) (simp add: Let_def)
  next
    case None
    obtain m2 where "fst (snd (archive_services ext vid n (i + 1) cs (snd ?r))) = fst (snd ?r) @ m2"
      using Cons [of "i + 1" "snd ?r"] by auto
    then show ?thesis using None m1 by (cases ?r) (simp add: Let_def)
  qed
qed

lemma unified_archive_first:
  "\<exists>rest. map fst (fst (snd (unified_archive ext vid sn scs w))) = ''stack_metadata.json'' # rest"
proof -
  from stack_header_first [of ext vid sn scs w]
  obtain r1 where r1: "map fst (fst (stack_header ext vid sn scs w)) = ''stack_metadata.json'' # r1"
    by (elim exE)
  from archive_services_grows [of ext vid "length scs" 0 scs "stack_header ext vid sn scs w"]
  obtain more where "fst (snd (unified_archive ext vid sn scs w)) = fst (stack_header ext vid sn scs w) @ more"
    unfolding unified_archive_def by (elim exE)
  with r1 show ?thesis by simp
qed

lemma gbf_success:
  assumes "generateBackupFile ext cid cp w = (Inr path, w')" and "inspect ext cid = Inr info"
  shows "fst (archiveContainerInternal ext cid [] cp ([], set_file path (Unfinished []) w)) = None"
    and "backups w' path
           = Some (Finalized (fst (snd (archiveContainerInternal ext cid [] cp
                                          ([], set_file path (Unfinished []) w)))))"
proof -
  let ?p = "''backups/'' @ replace_first (info_Name info) ''/'' [] @ ''_'' @ show_nat (clock w) @ ''.zip''"
  let ?r = "archiveContainerInternal ext cid [] cp ([], set_file ?p (Unfinished []) w)"
  obtain e a w1 where r: "?r = (e, a, w1)" by (cases ?r)
  from assms r have e: "e = None" and p: "path = ?p" and w': "w' = set_file ?p (Finalized a) w1"
    by (auto simp: generateBackupFile_def Let_def split: option.splits)
  show "fst (archiveContainerInternal ext cid [] cp ([], set_file path (Unfinished []) w)) = None"
    unfolding p r using e by simp
  show "backups w' path
           = Some (Finalized (fst (snd (archiveContainerInternal ext cid [] cp
                                          ([], set_file path (Unfinished []) w)))))"
    unfolding p r w' by simp
qed

lemma config_entry_name: "fst (config_entry ext [] cp info w) = ''config.json''"
  by (simp add: config_entry_def path_join_def)


lemma path_entry_ok:
  "getArchive ext cid p = Inr t \<Longrightarrow> fst (path_entry ext cid [] p) = ''volumes/'' @ safeName p"
  by (simp add: path_entry_def volume_entry_name_def path_join_def)



section \<open>Properties of the string primitives\<close>

lemma replace_first_at_start:
  "startsWith x pat \<Longrightarrow> replace_first x pat rep = rep @ drop (length pat) x"
  by (cases x) (simp_all add: startsWith_def)

lemma replace_first_prefix: "replace_first (pat @ s) pat [] = s"
  by (simp add: replace_first_at_start startsWith_def)

lemma not_startsWith_tar_append:
  "\<not> startsWith (c # cs) ''.tar'' \<Longrightarrow> \<not> startsWith (c # cs @ ''.tar'') ''.tar''"
  apply (cases cs)
   apply (simp add: startsWith_def)
  subgoal for a as
    apply (cases as)
     apply (simp add: startsWith_def)
    subgoal for b bs
      apply (cases bs)
       apply (simp_all add: startsWith_def)
      done
    done
  done

lemma replace_first_tar_suffix:
  "\<not> js_includes body ''.tar'' \<Longrightarrow> replace_first (body @ ''.tar'') ''.tar'' [] = body"
proof (induction body)
  case Nil
  then show ?case by (simp add: startsWith_def)
next
  case (Cons c cs)
  from Cons.prems have a: "\<not> startsWith (c # cs) ''.tar''" and b: "\<not> js_includes cs ''.tar''"
    by simp_all
  from a have "\<not> startsWith (c # cs @ ''.tar'') ''.tar''"
    by (rule not_startsWith_tar_append)
  with Cons.IH [OF b] show ?case by simp
qed

lemma startsWith_map_back:
  assumes "startsWith (map f s) pat" and "\<forall>c. f c \<in> set pat \<longrightarrow> f c = c"
  shows "startsWith s pat"
proof -
  from assms(1) have eq: "map f (take (length pat) s) = pat"
    by (simp add: startsWith_def take_map)
  then have "set pat = f ` set (take (length pat) s)" by (metis set_map)
  then have "\<forall>c \<in> set (take (length pat) s). f c \<in> set pat" by blast
  with assms(2) have "\<forall>c \<in> set (take (length pat) s). f c = c" by blast
  then have "map f (take (length pat) s) = take (length pat) s" by (simp add: map_idI)
  with eq show ?thesis by (simp add: startsWith_def)
qed

lemma js_includes_map_back:
  assumes "\<forall>c. f c \<in> set pat \<longrightarrow> f c = c" and "pat \<noteq> []"
  shows "js_includes (map f s) pat \<Longrightarrow> js_includes s pat"
proof (induction s)
  case Nil
  then show ?case by simp
next
  case (Cons c cs)
  then show ?case using startsWith_map_back [of f "c # cs" pat] assms(1) by auto
qed

lemma volume_entry_name_split:
  "volume_entry_name prefix p = volumesPrefix prefix @ safeName p"
  by (simp add: volume_entry_name_def volumesPrefix_def path_join_def)


section \<open>Environment entries of a compose manifest\<close>

text \<open>
  C8.  The claim: an array-form environment entry \<^verbatim>\<open>K=V\<close> is split at the first
  \<^verbatim>\<open>=\<close> only, so that \<^verbatim>\<open>K=a=b\<close> is parsed to the value \<^verbatim>\<open>a=b\<close>.
  The parser splits at every \<^verbatim>\<open>=\<close> and keeps the first two pieces: for the entry
  \<^verbatim>\<open>K=a=b\<close> the split is \<^verbatim>\<open>K\<close>, \<^verbatim>\<open>a\<close>, \<^verbatim>\<open>b\<close> and the stored value is
  \<^verbatim>\<open>a\<close>.  The value after the first \<^verbatim>\<open>=\<close> is truncated at the second one.
\<close>

theorem parse_environment_truncates_value:
  "split_on CHR ''='' ''K=a=b'' = [''K'', ''a'', ''b'']
   \<and> parse_environment (Some (EnvArray [''K=a=b''])) ''K'' = Some ''a''
   \<and> parse_environment (Some (EnvArray [''K=a=b''])) ''K'' \<noteq> Some ''a=b''"
  by (simp add: parse_environment_def parse_env_entry_def)


section \<open>The bounded history\<close>

text \<open>
  C9.  For every stored history of at most 200 entries, \<^verbatim>\<open>addHistoryEntry\<close> leaves a
  history of at most 200 entries whose first entry is the new one, followed by the first
  199 entries of the old history in their old order: nothing is dropped while fewer than
  200 entries were stored, and exactly the last (oldest) entry is dropped when 200 were.
\<close>

theorem addHistoryEntry_bounded_newest_first:
  assumes "length (read_history f) \<le> 200"
  shows "read_history (write_history e f) = e # take 199 (read_history f)
         \<and> length (read_history (write_history e f)) \<le> 200"
proof -
  let ?h = "read_history f"
  have r: "read_history (write_history e f) = unshift_bounded e ?h"
    by (simp add: write_history_def read_history_def)
  have "unshift_bounded e ?h = e # take 199 ?h"
  proof (cases "length ?h = 200")
    case True
    then have "butlast ?h = take 199 ?h" by (simp add: butlast_conv_take)
    moreover from True have "?h \<noteq> []" by auto
    ultimately show ?thesis using True by (simp add: unshift_bounded_def)
  next
    case False
    with assms have "length ?h < 200" by simp
    then show ?thesis by (simp add: unshift_bounded_def)
  qed
  with r show ?thesis by simp
qed

theorem addHistoryEntry_bounded_witness:
  "length (read_history (Some (replicate 200 (sample_entry ''old'')))) \<le> 200
   \<and> read_history (write_history (sample_entry ''new'') (Some (replicate 200 (sample_entry ''old''))))
       = sample_entry ''new'' # replicate 199 (sample_entry ''old'')"
  using addHistoryEntry_bounded_newest_first
          [of "Some (replicate 200 (sample_entry ''old''))" "sample_entry ''new''"]
  by (simp add: read_history_def)


section \<open>Port probing\<close>

lemma isPortAvailable_in_range: "port \<le> 65535 \<Longrightarrow> \<exists>a. isPortAvailable h port = Inr a"
  by (auto simp: isPortAvailable_def split: option.splits)

text \<open>
  C5, as claimed: the resolver never probes beyond 65534 and never selects 65535.  On a
  host where 65534 is taken and 65535 is free, a search from 65534 probes 65534, then
  probes 65535, and returns 65535.
\<close>

theorem findAvailablePort_reaches_65535:
  "findAvailablePort \<lparr>listening = [65534], published = Some []\<rparr> 65534
     = (Inr 65535, [65534, 65535])
   \<and> isPortAvailable \<lparr>listening = [65534], published = Some []\<rparr> 65534 = Inr False
   \<and> isPortAvailable \<lparr>listening = [65534], published = Some []\<rparr> 65535 = Inr True"
  by (simp add: findAvailablePort.simps isPortAvailable_def)

text \<open>
  C5, amended.  When some port \<open>p\<close> with \<open>start \<le> p \<le> 65535\<close> is available, the search
  from \<open>start\<close> returns the first available port \<open>r\<close>: it has probed exactly
  \<open>start, start + 1, \<dots>, r\<close> in this order, every port before \<open>r\<close> answered
  unavailable, \<open>r\<close> answered available, and \<open>r \<le> p\<close>.  The upper end of the search
  is 65535.
\<close>

theorem findAvailablePort_first_free:
  assumes "start \<le> p" and "p \<le> 65535" and "isPortAvailable h p = Inr True"
  shows "\<exists>r. findAvailablePort h start = (Inr r, [start..<Suc r])
             \<and> start \<le> r \<and> r \<le> p
             \<and> isPortAvailable h r = Inr True
             \<and> (\<forall>q \<in> set [start..<r]. isPortAvailable h q = Inr False)"
  using assms
proof (induction h start rule: findAvailablePort.induct)
  case (1 h port)
  show ?case
  proof (cases "isPortAvailable h port = Inr True")
    case True
    then have "findAvailablePort h port = (Inr port, [port])"
      by (subst findAvailablePort.simps) simp
    with True "1.prems" show ?thesis by (intro exI [of _ port]) simp
  next
    case False
    from "1.prems" have "port \<le> 65535" by simp
    from isPortAvailable_in_range [OF this, of h] obtain a where a0: "isPortAvailable h port = Inr a"
      by (elim exE)
    with False have a: "isPortAvailable h port = Inr False" by (cases a) simp_all
    from False "1.prems" have "port \<noteq> p" by auto
    with "1.prems" have lt: "port < p" by simp
    then have g: "\<not> False \<and> port < 65535" using "1.prems" by simp
    from lt have "port + 1 \<le> p" by simp
    from "1.IH" [OF a g this "1.prems"(2,3)] obtain r where
      r: "findAvailablePort h (port + 1) = (Inr r, [port + 1..<Suc r])" "port + 1 \<le> r" "r \<le> p"
         "isPortAvailable h r = Inr True"
         "\<forall>q \<in> set [port + 1..<r]. isPortAvailable h q = Inr False"
      by (elim exE conjE)
    have run: "findAvailablePort h port = (Inr r, port # [port + 1..<Suc r])"
      using a g r(1) by (subst findAvailablePort.simps) simp
    have lst: "port # [port + 1..<Suc r] = [port..<Suc r]"
      using r(2) by (simp add: upt_conv_Cons)
    have busy: "\<forall>q \<in> set [port..<r]. isPortAvailable h q = Inr False"
    proof
      fix q assume "q \<in> set [port..<r]"
      then have "q = port \<or> q \<in> set [port + 1..<r]" by auto
      then show "isPortAvailable h q = Inr False" using a r(5) by auto
    qed
    show ?thesis using run lst r(2,3,4) busy by (intro exI [of _ r]) simp
  qed
qed


theorem findAvailablePort_first_free_witness:
  "(8080::nat) \<le> 8082 \<and> (8082::nat) \<le> 65535
   \<and> isPortAvailable \<lparr>listening = [8080], published = Some [8081]\<rparr> 8082 = Inr True
   \<and> (\<exists>r. findAvailablePort \<lparr>listening = [8080], published = Some [8081]\<rparr> 8080
            = (Inr r, [8080..<Suc r]) \<and> 8080 \<le> r \<and> r \<le> 8082
          \<and> isPortAvailable \<lparr>listening = [8080], published = Some [8081]\<rparr> r = Inr True
          \<and> (\<forall>q \<in> set [8080..<r].
                isPortAvailable \<lparr>listening = [8080], published = Some [8081]\<rparr> q = Inr False))
   \<and> findAvailablePort \<lparr>listening = [8080], published = Some [8081]\<rparr> 8080
       = (Inr 8082, [8080, 8081, 8082])"
proof (intro conjI)
  show le: "(8080::nat) \<le> 8082" by simp
  show le2: "(8082::nat) \<le> 65535" by simp
  show av: "isPortAvailable \<lparr>listening = [8080], published = Some [8081]\<rparr> 8082 = Inr True"
    by (simp add: isPortAvailable_def)
  show "\<exists>r. findAvailablePort \<lparr>listening = [8080], published = Some [8081]\<rparr> 8080
            = (Inr r, [8080..<Suc r]) \<and> 8080 \<le> r \<and> r \<le> 8082
          \<and> isPortAvailable \<lparr>listening = [8080], published = Some [8081]\<rparr> r = Inr True
          \<and> (\<forall>q \<in> set [8080..<r].
                isPortAvailable \<lparr>listening = [8080], published = Some [8081]\<rparr> q = Inr False)"
    by (rule findAvailablePort_first_free [OF le le2 av])
  show "findAvailablePort \<lparr>listening = [8080], published = Some [8081]\<rparr> 8080
          = (Inr 8082, [8080, 8081, 8082])"
    by (simp add: findAvailablePort.simps isPortAvailable_def)
qed


text \<open>
  Outside the amended statement: when no port from the start to 65535 is available, the
  search ends at 65535 and returns it without an error.
\<close>

lemma findAvailablePort_exhausted:
  "findAvailablePort \<lparr>listening = [65534, 65535], published = Some []\<rparr> 65534
     = (Inr 65535, [65534, 65535])
   \<and> isPortAvailable \<lparr>listening = [65534, 65535], published = Some []\<rparr> 65535 = Inr False"
  by (simp add: findAvailablePort.simps isPortAvailable_def)


section \<open>Round trip of tar entry names\<close>

text \<open>
  C4, as claimed: for every absolute path without underscores, decoding the entry name
  gives the path back, in the stack restore and in the clone restore.  Four paths without
  underscores where it does not: the clone restore decodes the whole entry name, directory
  \<^verbatim>\<open>volumes/\<close> included, so \<^verbatim>\<open>/data\<close> comes back as \<^verbatim>\<open>/volumes/data\<close>; the stack
  restore removes the first \<^verbatim>\<open>.tar\<close> of the name, not the last; a second leading
  slash is lost; and a backslash is encoded like a slash.
\<close>

theorem decode_roundtrip_counterexample:
  "CHR ''_'' \<notin> set ''/data''
   \<and> decode_clone (volume_entry_name [] ''/data'') = ''/volumes/data''
   \<and> decode_stack [] (volume_entry_name [] ''/a.tar/b'') = ''/a/b.tar''
   \<and> decode_stack [] (volume_entry_name [] ''//a'') = ''/a''
   \<and> decode_stack [] (volume_entry_name [] [CHR ''/'', CHR ''a'', CHR 0x5C, CHR ''b'']) = ''/a/b''"
  by (simp add: decode_clone_def decode_stack_def volume_entry_name_def volumesPrefix_def
      path_join_def safeName_def replace_all_char_def strip_leading_underscore_def is_sep_def
      startsWith_def ensure_leading_slash_def)

text \<open>
  C4, amended.  For every path that starts with exactly one slash and contains no
  underscore, no backslash and no \<^verbatim>\<open>.tar\<close>, and for every archive prefix, the stack
  restore's decoding (\<^verbatim>\<open>restoreVolumesInternal\<close>) of the entry name the backup writes is
  the path itself.
\<close>

theorem decode_stack_roundtrip:
  assumes "startsWith p ''/''" and "CHR ''_'' \<notin> set p" and "CHR 0x5C \<notin> set p"
    and "\<not> startsWith p ''//''" and "\<not> js_includes p ''.tar''"
  shows "decode_stack prefix (volume_entry_name prefix p) = p"
proof -
  from assms(1) obtain q where p: "p = CHR ''/'' # q"
    by (cases p) (auto simp: startsWith_def)
  let ?f = "\<lambda>c. if is_sep c then CHR ''_'' else c"
  let ?g = "\<lambda>c. if c = CHR ''_'' then CHR ''/'' else c"
  have sn: "safeName p = map ?f q @ ''.tar''"
    by (simp add: p safeName_def replace_all_char_def strip_leading_underscore_def is_sep_def)
  have "\<not> js_includes q ''.tar''" using assms(5) by (simp add: p)
  moreover have "\<forall>c. ?f c \<in> set ''.tar'' \<longrightarrow> ?f c = c" by (simp add: is_sep_def)
  ultimately have ninc: "\<not> js_includes (map ?f q) ''.tar''"
    using js_includes_map_back [of ?f "''.tar''" q] by blast
  have raw: "replace_first (replace_first (volume_entry_name prefix p) (volumesPrefix prefix) [])
               ''.tar'' [] = map ?f q"
    by (simp add: volume_entry_name_split replace_first_prefix sn
        replace_first_tar_suffix [OF ninc])
  have inv: "map ?g (map ?f q) = q"
    using assms(2,3) by (auto simp: p is_sep_def intro!: map_idI)
  have nosl: "\<not> startsWith q ''/''" using assms(4) by (simp add: p startsWith_def)
  show ?thesis
    unfolding decode_stack_def Let_def raw replace_all_char_def inv ensure_leading_slash_def
    using nosl by (simp add: p)
qed

theorem decode_stack_roundtrip_witness:
  "startsWith ''/usr/share/nginx/html'' ''/''
   \<and> CHR ''_'' \<notin> set ''/usr/share/nginx/html''
   \<and> CHR 0x5C \<notin> set ''/usr/share/nginx/html''
   \<and> \<not> startsWith ''/usr/share/nginx/html'' ''//''
   \<and> \<not> js_includes ''/usr/share/nginx/html'' ''.tar''
   \<and> volume_entry_name ''services/web'' ''/usr/share/nginx/html''
       = ''services/web/volumes/usr_share_nginx_html.tar''
   \<and> decode_stack ''services/web'' ''services/web/volumes/usr_share_nginx_html.tar''
       = ''/usr/share/nginx/html''"
proof -
  have h: "startsWith ''/usr/share/nginx/html'' ''/''"
    "CHR ''_'' \<notin> set ''/usr/share/nginx/html''"
    "CHR 0x5C \<notin> set ''/usr/share/nginx/html''"
    "\<not> startsWith ''/usr/share/nginx/html'' ''//''"
    "\<not> js_includes ''/usr/share/nginx/html'' ''.tar''"
    by (simp_all add: startsWith_def)
  have n: "volume_entry_name ''services/web'' ''/usr/share/nginx/html''
             = ''services/web/volumes/usr_share_nginx_html.tar''"
    by (simp add: volume_entry_name_def path_join_def safeName_def replace_all_char_def
        strip_leading_underscore_def is_sep_def)
  from decode_stack_roundtrip [OF h, of "''services/web''"] n h show ?thesis by simp
qed


section \<open>Position of the metadata entry\<close>

text \<open>
  C1, as claimed: \<^verbatim>\<open>config.json\<close> is the first entry appended to every
  single-container artifact, before \<^verbatim>\<open>dump.sql\<close> in the dump branch.  For the
  Postgres container the entries are appended in the order \<^verbatim>\<open>dump.sql\<close>,
  \<^verbatim>\<open>config.json\<close>, \<^verbatim>\<open>volumes_none.txt\<close>.
\<close>

theorem dump_precedes_config:
  "map fst (fst (snd (archiveContainerInternal demo_ext ''c-db'' [] None ([], fresh_world))))
     = [''dump.sql'', ''config.json'', ''volumes_none.txt'']"
  by (simp add: run_defs)


text \<open>
  C1, amended.  In a unified stack archive the first entry appended is
  \<^verbatim>\<open>stack_metadata.json\<close>.  In the artifact of a single-container backup that
  completed, the first entry is \<^verbatim>\<open>config.json\<close> when the image is not a database
  image; for a database image \<^verbatim>\<open>dump.sql\<close> is first and \<^verbatim>\<open>config.json\<close> second.
\<close>

theorem metadata_entry_position:
  "(\<exists>rest. map fst (fst (snd (unified_archive ext virtualId stackName stackContainers w)))
            = ''stack_metadata.json'' # rest)
   \<and> (generateBackupFile ext containerId customPaths w = (Inr filePath, w') \<longrightarrow>
      inspect ext containerId = Inr info \<longrightarrow>
        (\<exists>es rest. backups w' filePath = Some (Finalized es)
           \<and> map fst es = (if is_db_image (info_Image info) then [''dump.sql'', ''config.json'']
                           else [''config.json'']) @ rest))"
proof (intro conjI impI)
  show "\<exists>rest. map fst (fst (snd (unified_archive ext virtualId stackName stackContainers w)))
            = ''stack_metadata.json'' # rest"
    by (rule unified_archive_first)
next
  assume g: "generateBackupFile ext containerId customPaths w = (Inr filePath, w')"
    and i: "inspect ext containerId = Inr info"
  let ?aw = "([], set_file filePath (Unfinished []) w)"
  let ?r = "archiveContainerInternal ext containerId [] customPaths ?aw"
  have ok: "fst ?r = None" by (rule gbf_success(1) [OF g i])
  have f: "backups w' filePath = Some (Finalized (fst (snd ?r)))" by (rule gbf_success(2) [OF g i])
  have "\<exists>rest. map fst (fst (snd ?r))
          = (if is_db_image (info_Image info) then [''dump.sql'', ''config.json''] else [''config.json'']) @ rest"
  proof (cases "is_db_image (info_Image info)")
    case False
    then show ?thesis
      by (simp add: aci_nondb [OF i False] acv_entries config_entry_name)
  next
    case True
    then show ?thesis
      using ok
      by (auto simp: aci_db [OF i True] Let_def acv_entries config_entry_name path_join_def
          split: exec_outcome.splits if_splits)
  qed
  with f show "\<exists>es rest. backups w' filePath = Some (Finalized es)
           \<and> map fst es = (if is_db_image (info_Image info) then [''dump.sql'', ''config.json'']
                           else [''config.json'']) @ rest"
    by blast
qed


theorem metadata_entry_position_witness:
  "(\<exists>rest. map fst (fst (snd (unified_archive demo_ext ''stack-shop'' ''shop'' shop_containers
                                      fresh_world)))
            = ''stack_metadata.json'' # rest)
   \<and> map fst (fst (snd (unified_archive demo_ext ''stack-shop'' ''shop'' shop_containers fresh_world)))
       = [''stack_metadata.json'', ''services/nginx-1/config.json'',
          ''services/nginx-1/volumes_none.txt'', ''services/db/dump.sql'',
          ''services/db/config.json'', ''services/db/volumes_none.txt'']
   \<and> (\<exists>w'. generateBackupFile demo_ext ''c-db'' None fresh_world
               = (Inr ''backups/db_1700000000000.zip'', w')
          \<and> inspect demo_ext ''c-db'' = Inr pg_info
          \<and> is_db_image (info_Image pg_info)
          \<and> (\<exists>es rest. backups w' ''backups/db_1700000000000.zip'' = Some (Finalized es)
                \<and> map fst es = [''dump.sql'', ''config.json''] @ rest))
   \<and> (\<exists>w'. generateBackupFile demo_ext ''c-nginx'' None fresh_world
               = (Inr ''backups/nginx-1_1700000000000.zip'', w')
          \<and> inspect demo_ext ''c-nginx'' = Inr nginx_info
          \<and> \<not> is_db_image (info_Image nginx_info)
          \<and> (\<exists>es rest. backups w' ''backups/nginx-1_1700000000000.zip'' = Some (Finalized es)
                \<and> map fst es = [''config.json''] @ rest))"
proof (intro conjI)
  show "\<exists>rest. map fst (fst (snd (unified_archive demo_ext ''stack-shop'' ''shop'' shop_containers
                                      fresh_world)))
            = ''stack_metadata.json'' # rest"
    using metadata_entry_position [where ext = demo_ext and virtualId = "''stack-shop''"
            and stackName = "''shop''" and stackContainers = shop_containers and w = fresh_world]
    by (rule conjunct1)
next
  show "map fst (fst (snd (unified_archive demo_ext ''stack-shop'' ''shop'' shop_containers fresh_world)))
       = [''stack_metadata.json'', ''services/nginx-1/config.json'',
          ''services/nginx-1/volumes_none.txt'', ''services/db/dump.sql'',
          ''services/db/config.json'', ''services/db/volumes_none.txt'']"
    by (simp add: unified_archive_def stack_header_def stackMetadata_def container_name_def
        updateJobStatus_def run_defs show_nat.simps split: prod.splits)
next
  have "fst (generateBackupFile demo_ext ''c-db'' None fresh_world) = Inr ''backups/db_1700000000000.zip''"
    by (simp add: generateBackupFile_def run_defs show_nat.simps split: prod.splits)
  then obtain w' where g: "generateBackupFile demo_ext ''c-db'' None fresh_world
                             = (Inr ''backups/db_1700000000000.zip'', w')"
    by (cases "generateBackupFile demo_ext ''c-db'' None fresh_world") simp
  have i: "inspect demo_ext ''c-db'' = Inr pg_info" by (simp add: demo_ext_def)
  have d: "is_db_image (info_Image pg_info)" by (simp add: pg_info_def is_db_image_def startsWith_def)
  from metadata_entry_position [where ext = demo_ext and containerId = "''c-db''"
         and customPaths = None and w = fresh_world and w' = w' and info = pg_info
         and filePath = "''backups/db_1700000000000.zip''"] g i d
  have "\<exists>es rest. backups w' ''backups/db_1700000000000.zip'' = Some (Finalized es)
                \<and> map fst es = [''dump.sql'', ''config.json''] @ rest"
    by simp
  with g i d show "\<exists>w'. generateBackupFile demo_ext ''c-db'' None fresh_world
               = (Inr ''backups/db_1700000000000.zip'', w')
          \<and> inspect demo_ext ''c-db'' = Inr pg_info
          \<and> is_db_image (info_Image pg_info)
          \<and> (\<exists>es rest. backups w' ''backups/db_1700000000000.zip'' = Some (Finalized es)
                \<and> map fst es = [''dump.sql'', ''config.json''] @ rest)"
    by blast
next
  have "fst (generateBackupFile demo_ext ''c-nginx'' None fresh_world)
          = Inr ''backups/nginx-1_1700000000000.zip''"
    by (simp add: generateBackupFile_def run_defs show_nat.simps split: prod.splits)
  then obtain w' where g: "generateBackupFile demo_ext ''c-nginx'' None fresh_world
                             = (Inr ''backups/nginx-1_1700000000000.zip'', w')"
    by (cases "generateBackupFile demo_ext ''c-nginx'' None fresh_world") simp
  have i: "inspect demo_ext ''c-nginx'' = Inr nginx_info" by (simp add: demo_ext_def)
  have d: "\<not> is_db_image (info_Image nginx_info)"
    by (simp add: nginx_info_def is_db_image_def startsWith_def)
  from metadata_entry_position [where ext = demo_ext and containerId = "''c-nginx''"
         and customPaths = None and w = fresh_world and w' = w' and info = nginx_info
         and filePath = "''backups/nginx-1_1700000000000.zip''"] g i d
  have "\<exists>es rest. backups w' ''backups/nginx-1_1700000000000.zip'' = Some (Finalized es)
                \<and> map fst es = [''config.json''] @ rest"
    by simp
  with g i d show "\<exists>w'. generateBackupFile demo_ext ''c-nginx'' None fresh_world
               = (Inr ''backups/nginx-1_1700000000000.zip'', w')
          \<and> inspect demo_ext ''c-nginx'' = Inr nginx_info
          \<and> \<not> is_db_image (info_Image nginx_info)
          \<and> (\<exists>es rest. backups w' ''backups/nginx-1_1700000000000.zip'' = Some (Finalized es)
                \<and> map fst es = [''config.json''] @ rest)"
    by blast
qed


section \<open>Names of the volume entries\<close>

text \<open>
  C3, as claimed: a captured path \<^verbatim>\<open>/usr/share/nginx/html\<close> gives the entries
  \<^verbatim>\<open>config.json\<close> and \<^verbatim>\<open>_usr_share_nginx_html.tar\<close> at the archive root.  The
  backup of the web server with this one path appends \<^verbatim>\<open>config.json\<close> and
  \<^verbatim>\<open>volumes/usr_share_nginx_html.tar\<close>: the entry is in the directory
  \<^verbatim>\<open>volumes\<close> and the leading underscore is dropped.
\<close>

theorem volume_entry_not_at_root:
  "map fst (fst (snd (archiveContainerInternal demo_ext ''c-nginx'' []
                        (Some [''/usr/share/nginx/html'']) ([], fresh_world))))
     = [''config.json'', ''volumes/usr_share_nginx_html.tar'']
   \<and> [''config.json'', ''volumes/usr_share_nginx_html.tar'']
       \<noteq> [''config.json'', ''_usr_share_nginx_html.tar'']"
  by (simp add: archiveContainerInternal_def archive_config_and_volumes_def backup_paths_def
      updateJobStatus_def demo_ext_def nginx_info_def is_db_image_def startsWith_def
      fresh_world_def path_join_def volume_entry_name_def safeName_def config_entry_def path_entry_def
      replace_all_char_def strip_leading_underscore_def is_sep_def add_trimmed_def set_add_def trim_def
      is_space_def truthy_def Let_def)
text \<open>
  C3, amended.  For a container that is not a database, with a non-empty list of paths to
  capture, each of which the engine hands out, the backup completes and the entries of
  its artifact are \<^verbatim>\<open>config.json\<close> followed, for each path \<open>p\<close> in order, by
  \<^verbatim>\<open>volumes/<escaped p>.tar\<close>, where the escape replaces every slash and backslash by
  an underscore and drops one leading underscore.
\<close>

theorem volume_entries_under_volumes:
  assumes insp: "inspect ext containerId = Inr info"
    and ndb: "\<not> is_db_image (info_Image info)"
    and ne: "backup_paths w info customPaths \<noteq> []"
    and ok: "\<forall>p \<in> set (backup_paths w info customPaths). \<exists>t. getArchive ext containerId p = Inr t"
  shows "\<exists>filePath w' es.
           generateBackupFile ext containerId customPaths w = (Inr filePath, w')
           \<and> backups w' filePath = Some (Finalized es)
           \<and> map fst es
               = ''config.json'' # map (\<lambda>p. ''volumes/'' @ safeName p) (backup_paths w info customPaths)"
proof -
  let ?p = "''backups/'' @ replace_first (info_Name info) ''/'' [] @ ''_'' @ show_nat (clock w) @ ''.zip''"
  let ?w1 = "updateJobStatus containerId Processing ''Step: Inspecting Container...''
               (set_file ?p (Unfinished []) w)"
  let ?r = "archive_config_and_volumes ext containerId [] customPaths info ([], ?w1)"
  have names: "map fst (map (path_entry ext containerId []) (backup_paths w info customPaths))
                 = map (\<lambda>p. ''volumes/'' @ safeName p) (backup_paths w info customPaths)"
    using ok by (auto simp: path_entry_ok)
  have es: "map fst (fst ?r)
              = ''config.json'' # map (\<lambda>p. ''volumes/'' @ safeName p) (backup_paths w info customPaths)"
    using ne names by (simp add: acv_entries config_entry_name)
  have g: "generateBackupFile ext containerId customPaths w
             = (Inr ?p, set_file ?p (Finalized (fst ?r)) (snd ?r))"
    by (simp add: generateBackupFile_def insp Let_def aci_nondb [OF insp ndb]) (cases ?r, simp)
  show ?thesis
  proof (intro exI conjI)
    show "generateBackupFile ext containerId customPaths w
            = (Inr ?p, set_file ?p (Finalized (fst ?r)) (snd ?r))" by (rule g)
    show "backups (set_file ?p (Finalized (fst ?r)) (snd ?r)) ?p = Some (Finalized (fst ?r))"
      by simp
    show "map fst (fst ?r)
            = ''config.json'' # map (\<lambda>p. ''volumes/'' @ safeName p) (backup_paths w info customPaths)"
      by (rule es)
  qed
qed



theorem volume_entries_under_volumes_witness:
  "inspect demo_ext ''c-nginx'' = Inr nginx_info
   \<and> \<not> is_db_image (info_Image nginx_info)
   \<and> backup_paths fresh_world nginx_info (Some [''/usr/share/nginx/html'']) = [''/usr/share/nginx/html'']
   \<and> getArchive demo_ext ''c-nginx'' ''/usr/share/nginx/html'' = Inr ''tar-bytes''
   \<and> (\<exists>filePath w' es.
         generateBackupFile demo_ext ''c-nginx'' (Some [''/usr/share/nginx/html'']) fresh_world
           = (Inr filePath, w')
         \<and> backups w' filePath = Some (Finalized es)
         \<and> map fst es = [''config.json'', ''volumes/usr_share_nginx_html.tar''])"
proof -
  have i: "inspect demo_ext ''c-nginx'' = Inr nginx_info" by (simp add: demo_ext_def)
  have n: "\<not> is_db_image (info_Image nginx_info)"
    by (simp add: nginx_info_def is_db_image_def startsWith_def)
  have b: "backup_paths fresh_world nginx_info (Some [''/usr/share/nginx/html'']) = [''/usr/share/nginx/html'']"
    by (simp add: backup_paths_def nginx_info_def truthy_def add_trimmed_def set_add_def trim_def
        is_space_def Let_def)
  have a: "getArchive demo_ext ''c-nginx'' ''/usr/share/nginx/html'' = Inr ''tar-bytes''"
    by (simp add: demo_ext_def)
  have s: "safeName ''/usr/share/nginx/html'' = ''usr_share_nginx_html.tar''"
    by (simp add: safeName_def replace_all_char_def strip_leading_underscore_def is_sep_def)
  have "\<exists>filePath w' es.
           generateBackupFile demo_ext ''c-nginx'' (Some [''/usr/share/nginx/html'']) fresh_world
             = (Inr filePath, w')
           \<and> backups w' filePath = Some (Finalized es)
           \<and> map fst es = ''config.json'' # map (\<lambda>p. ''volumes/'' @ safeName p)
                 (backup_paths fresh_world nginx_info (Some [''/usr/share/nginx/html'']))"
    by (rule volume_entries_under_volumes [OF i n]) (simp_all add: b a)
  then show ?thesis using i n b a by (simp add: s)
qed


section \<open>Jobs in progress\<close>

text \<open>
  C2, as claimed: no state is reachable in which two job ids are \<^verbatim>\<open>processing\<close> at
  once.  A unified backup of the stack \<^verbatim>\<open>shop\<close> writes \<^verbatim>\<open>processing\<close> for its
  own id and, through \<^verbatim>\<open>archiveContainerInternal\<close>, for the id of each member
  container; nothing writes a later status for the containers.  When the job has
  completed, both containers are \<^verbatim>\<open>processing\<close> on the board; one write earlier the
  two containers and the stack job were.
\<close>

theorem stack_backup_leaves_two_processing:
  "fst (triggerUnifiedStackBackup demo_ext ''shop'' fresh_world)
     = Inr ''backups/stack_shop_1700000000000.zip''
   \<and> processing_ids (globalState (snd (triggerUnifiedStackBackup demo_ext ''shop'' fresh_world)))
     = [''c-db'', ''c-nginx'']
   \<and> processing_ids
       (drop 1 (globalState (snd (triggerUnifiedStackBackup demo_ext ''shop'' fresh_world))))
     = [''c-db'', ''c-nginx'', ''stack-shop'']"
  by (simp add: triggerUnifiedStackBackup_def unified_archive_def stack_header_def stack_containers_def
      stackMetadata_def container_name_def handleUpload_def basename_def set_file_def stack_failed_def
      addHistoryEntry_def updateJobStatus_def processing_ids_def run_defs show_nat.simps
      split: prod.splits)



text \<open>
  C2, amended.  In a process that starts with an empty status board, let calls of
  \<^verbatim>\<open>triggerBackup\<close>, resumptions of the running backup, expiries of its timer,
  errors of its archive and resumptions of abandoned executors follow each other in any
  order and number, the run being timely.  Then at every moment of the run (after every write to the status board)
  at most one job id is \<^verbatim>\<open>processing\<close>, and at the end of the run the only id that
  can be \<^verbatim>\<open>processing\<close> is that of the backup the queue is running; when the queue
  is idle, none is.
\<close>

theorem queue_serializes_container_backups:
  assumes "globalState w = []" and "timely ext (boot w) evs"
  shows "length (processing_ids (drop k (globalState (store (run_events ext evs (boot w)))))) \<le> 1
       \<and> set (processing_ids (globalState (store (run_events ext evs (boot w)))))
           \<subseteq> owner (run_events ext evs (boot w))"
proof -
  have "serial_inv (boot w)" using assms(1) by (rule serial_inv_boot)
  then have "serial_inv (run_events ext evs (boot w))" using assms(2) by (rule serial_inv_run_events)
  then show ?thesis by (simp add: serial_inv_def calm_def)
qed

theorem queue_serializes_container_backups_witness:
  "globalState fresh_world = []
   \<and> timely failing_dump_ext (boot fresh_world)
       [Trigger [''c-db'', ''c-nginx''] Map.empty, Resume, Resume, Resume, Timeout]
   \<and> length (processing_ids (drop 2 (globalState (store
        (run_events failing_dump_ext
           [Trigger [''c-db'', ''c-nginx''] Map.empty, Resume, Resume, Resume, Timeout]
           (boot fresh_world)))))) \<le> 1
   \<and> set (processing_ids (globalState (store
        (run_events failing_dump_ext
           [Trigger [''c-db'', ''c-nginx''] Map.empty, Resume, Resume, Resume, Timeout]
           (boot fresh_world)))))
       \<subseteq> owner (run_events failing_dump_ext
                   [Trigger [''c-db'', ''c-nginx''] Map.empty, Resume, Resume, Resume, Timeout]
                   (boot fresh_world))
   \<and> processing_ids (globalState (store
        (run_events failing_dump_ext
           [Trigger [''c-db'', ''c-nginx''] Map.empty, Resume, Resume, Resume, Timeout]
           (boot fresh_world))))
       = [''c-nginx'']
   \<and> processing_ids (globalState (store
        (run_events failing_dump_ext [Trigger [''c-db'', ''c-nginx''] Map.empty] (boot fresh_world))))
       = [''c-db'']"
proof -
  let ?evs = "[Trigger [''c-db'', ''c-nginx''] Map.empty, Resume, Resume, Resume, Timeout]"
  have a: "globalState fresh_world = []" by (simp add: fresh_world_def)
  have b: "timely failing_dump_ext (boot fresh_world) ?evs"
    by (simp add: node_defs job_defs failing_dump_ext_def run_defs show_nat.simps split: prod.splits)
  have c: "processing_ids (globalState (store (run_events failing_dump_ext ?evs (boot fresh_world))))
             = [''c-nginx'']"
    by (simp add: node_defs job_defs failing_dump_ext_def processing_ids_def run_defs show_nat.simps
        split: prod.splits)
  have d: "processing_ids (globalState (store
             (run_events failing_dump_ext [Trigger [''c-db'', ''c-nginx''] Map.empty] (boot fresh_world))))
             = [''c-db'']"
    by (simp add: node_defs job_defs processing_ids_def run_defs split: prod.splits)
  from queue_serializes_container_backups [OF a b, of 2] a b c d show ?thesis by simp
qed

text \<open>
  A run that is not timely: the timer of the first backup fires while its executor waits
  for the engine, the queue starts the second backup, and the abandoned executor, resumed,
  writes \<^verbatim>\<open>processing\<close> for the first container.
\<close>

lemma abandoned_archive_overlaps_next_job:
  "processing_ids (globalState (store
     (run_events demo_ext
        [Trigger [''c-nginx'', ''c-db''] [''c-nginx'' \<mapsto> [''/data'']], Resume, Timeout,
         ResumeAbandoned 0]
        (boot fresh_world))))
     = [''c-db'', ''c-nginx'']
   \<and> \<not> timely demo_ext (boot fresh_world)
        [Trigger [''c-nginx'', ''c-db''] [''c-nginx'' \<mapsto> [''/data'']], Resume, Timeout,
         ResumeAbandoned 0]"
  by (simp add: node_defs job_defs processing_ids_def run_defs show_nat.simps split: prod.splits)




section \<open>A dump of zero bytes\<close>

lemma with_stderr_fields [simp]:
  "inspect (with_stderr f ext) = inspect ext"
  "getArchive (with_stderr f ext) = getArchive ext"
  "listContainers (with_stderr f ext) = listContainers ext"
  "readFile (with_stderr f ext) = readFile ext"
  "TELEGRAM_TOKEN (with_stderr f ext) = TELEGRAM_TOKEN ext"
  "CHAT_ID (with_stderr f ext) = CHAT_ID ext"
  "sendDocument (with_stderr f ext) = sendDocument ext"
  "toISOString (with_stderr f ext) = toISOString ext"
  "size_MB (with_stderr f ext) = size_MB ext"
  by (simp_all add: with_stderr_def)

lemma archive_paths_stderr:
  "archive_paths (with_stderr f ext) cid prefix ps aw = archive_paths ext cid prefix ps aw"
  by (induction ps arbitrary: aw) (simp_all add: Let_def path_entry_def)

lemma aci_stderr:
  "archiveContainerInternal (with_stderr f ext) cid prefix cp aw
     = archiveContainerInternal ext cid prefix cp aw"
proof -
  have acv: "archive_config_and_volumes (with_stderr f ext) cid prefix cp info aw'
               = archive_config_and_volumes ext cid prefix cp info aw'" for info aw'
    by (simp add: archive_config_and_volumes_def config_entry_def archive_paths_stderr Let_def)
  have ex: "exec_dump (with_stderr f ext) c m
              = (case exec_dump ext c m of Exec_done out err \<Rightarrow> Exec_done out (f err) | r \<Rightarrow> r)"
    for c m by (simp add: with_stderr_def)
  show ?thesis
    by (simp add: archiveContainerInternal_def acv ex Let_def
        split: sum.splits exec_outcome.splits)
qed

lemma processBackup_stderr:
  "processBackup (with_stderr f ext) cid cp w = processBackup ext cid cp w"
proof -
  have g: "generateBackupFile (with_stderr f ext) cid cp w' = generateBackupFile ext cid cp w'" for w'
    by (simp add: generateBackupFile_def aci_stderr Let_def cong: sum.case_cong)
  have h: "handleUpload (with_stderr f ext) cid p w' = handleUpload ext cid p w'" for p w'
    by (simp add: handleUpload_def history_entry_def Let_def
        cong: prod.case_cong sum.case_cong option.case_cong if_cong)
  have b: "backup_failed (with_stderr f ext) cid m w' = backup_failed ext cid m w'" for m w'
    by (simp add: backup_failed_def history_entry_def Let_def)
  show ?thesis
    by (simp add: processBackup_def g h b Let_def cong: prod.case_cong sum.case_cong option.case_cong)
qed

lemma archive_services_stderr:
  "archive_services (with_stderr f ext) vid n i cs aw = archive_services ext vid n i cs aw"
  by (induction cs arbitrary: i aw)
     (simp_all add: aci_stderr Let_def cong: prod.case_cong option.case_cong)

lemma tusb_stderr:
  "triggerUnifiedStackBackup (with_stderr f ext) sn w = triggerUnifiedStackBackup ext sn w"
proof -
  have h: "handleUpload (with_stderr f ext) vid p w' = handleUpload ext vid p w'" for vid p w'
    by (simp add: handleUpload_def history_entry_def Let_def
        cong: prod.case_cong sum.case_cong option.case_cong if_cong)
  have s: "stack_header (with_stderr f ext) vid sn scs w' = stack_header ext vid sn scs w'"
    for vid scs w'
    by (simp add: stack_header_def stackMetadata_def Let_def
        cong: prod.case_cong sum.case_cong option.case_cong if_cong)
  have u: "unified_archive (with_stderr f ext) vid sn scs w' = unified_archive ext vid sn scs w'"
    for vid scs w'
    by (simp add: unified_archive_def s archive_services_stderr)
  show ?thesis
    by (simp add: triggerUnifiedStackBackup_def h u Let_def
        cong: prod.case_cong sum.case_cong option.case_cong if_cong)
qed

lemma archive_services_fails:
  assumes "c \<in> set cs"
    and "\<And>prefix aw. fst (archiveContainerInternal ext (c_Id c) prefix None aw) \<noteq> None"
  shows "fst (archive_services ext vid n i cs aw) \<noteq> None"
  using assms(1)
proof (induction cs arbitrary: i aw)
  case Nil
  then show ?case by simp
next
  case (Cons d ds)
  let ?w1 = "updateJobStatus vid Processing
                 (''Archiving Service ['' @ show_nat (i + 1) @ ''/'' @ show_nat n @ '']: '' @ container_name d)
                 (snd aw)"
  let ?r = "archiveContainerInternal ext (c_Id d) (''services/'' @ container_name d) None (fst aw, ?w1)"
  show ?case
  proof (cases "fst ?r")
    case (Some e)
    then show ?thesis by (cases ?r) (simp add: Let_def)
  next
    case None
    with assms(2) [of "''services/'' @ container_name d" "(fst aw, ?w1)"] have "c \<noteq> d" by auto
    with Cons.prems have "c \<in> set ds" by simp
    from Cons.IH [OF this, of "i + 1" "snd ?r"] None show ?thesis
      by (cases ?r) (simp add: Let_def)
  qed
qed

lemma archive_services_frame_both:
  "backups (snd (snd (archive_services ext vid n i cs aw))) = backups (snd aw)
   \<and> history_file (snd (snd (archive_services ext vid n i cs aw))) = history_file (snd aw)"
proof (induction cs arbitrary: i aw)
  case Nil
  show ?case by simp
next
  case (Cons d ds)
  let ?w1 = "updateJobStatus vid Processing
                 (''Archiving Service ['' @ show_nat (i + 1) @ ''/'' @ show_nat n @ '']: '' @ container_name d)
                 (snd aw)"
  let ?r = "archiveContainerInternal ext (c_Id d) (''services/'' @ container_name d) None (fst aw, ?w1)"
  obtain e arch w2 where r: "?r = (e, arch, w2)" by (cases ?r)
  from aci_frame(3) [of ext "c_Id d" "''services/'' @ container_name d" None "(fst aw, ?w1)"]
  have b: "backups w2 = backups (snd aw)" unfolding r by simp
  from aci_frame(2) [of ext "c_Id d" "''services/'' @ container_name d" None "(fst aw, ?w1)"]
  have h: "history_file w2 = history_file (snd aw)" unfolding r by simp
  show ?case
  proof (cases e)
    case (Some m)
    then show ?thesis using r b h by (simp add: Let_def)
  next
    case None
    from Cons.IH [of "i + 1" "(arch, w2)"] None r b h show ?thesis
      by (simp add: Let_def)
  qed
qed

lemma archive_services_frame [simp]:
  "backups (snd (snd (archive_services ext vid n i cs aw))) = backups (snd aw)"
  "history_file (snd (snd (archive_services ext vid n i cs aw))) = history_file (snd aw)"
  using archive_services_frame_both [of ext vid n i cs aw] by simp_all

lemma stack_header_frame [simp]:
  "backups (snd (stack_header ext vid sn scs w)) = backups w"
  "history_file (snd (stack_header ext vid sn scs w)) = history_file w"
  by (simp_all add: stack_header_def Let_def split: option.splits sum.splits)

lemma stack_containers_frame [simp]:
  "stack_containers (updateJobStatus jid st msg w) sn cs = stack_containers w sn cs"
  by (simp add: stack_containers_def Let_def cong: if_cong)

lemma tusb_member_fails:
  assumes ls: "listContainers ext = Inr cs"
    and mem: "c \<in> set (stack_containers w stackName cs)"
    and fails: "\<And>prefix aw. fst (archiveContainerInternal ext (c_Id c) prefix None aw) \<noteq> None"
  shows "\<exists>es. triggerUnifiedStackBackup ext stackName w
           = stack_failed (''stack-'' @ stackName) ''Unified Backup timeout''
               (set_file (''backups/stack_'' @ stackName @ ''_'' @ show_nat (clock w) @ ''.zip'')
                  (Unfinished es)
                  (snd (snd (unified_archive ext (''stack-'' @ stackName) stackName
                               (stack_containers w stackName cs)
                               (set_file (''backups/stack_'' @ stackName @ ''_'' @ show_nat (clock w) @ ''.zip'')
                                  (Unfinished [])
                                  (updateJobStatus (''stack-'' @ stackName) Processing
                                     (''Starting Unified Backup for '' @ stackName @ ''...'') w))))))"
proof -
  let ?vid = "''stack-'' @ stackName"
  let ?fp = "''backups/stack_'' @ stackName @ ''_'' @ show_nat (clock w) @ ''.zip''"
  let ?w1 = "updateJobStatus ?vid Processing (''Starting Unified Backup for '' @ stackName @ ''...'') w"
  let ?scs = "stack_containers w stackName cs"
  let ?u = "unified_archive ext ?vid stackName ?scs (set_file ?fp (Unfinished []) ?w1)"
  from mem have ne: "?scs \<noteq> []" by auto
  have "fst ?u \<noteq> None"
    unfolding unified_archive_def by (rule archive_services_fails [OF mem fails])
  then obtain e where e: "fst ?u = Some e" by auto
  show ?thesis
    apply (rule exI [of _ "fst (snd ?u)"])
    using e ne
    apply (cases ?u)
    apply (simp add: triggerUnifiedStackBackup_def ls Let_def)
    done
qed

lemma aci_empty_dump:
  assumes "inspect ext cid = Inr info" and "is_db_image (info_Image info)"
    and "exec_dump ext cid (dump_cmd (info_Image info) (info_Env info)) = Exec_done [] err"
  shows "archiveContainerInternal ext cid prefix cp aw
           = (Some ''Empty SQL Dump'', fst aw,
              updateJobStatus cid Processing ''Step: Executing Dump...''
                (updateJobStatus cid Processing ''Step: DB Strategy Detected''
                   (updateJobStatus cid Processing ''Step: Inspecting Container...'' (snd aw))))"
  using assms(3) by (simp add: aci_db [OF assms(1,2)] Let_def)

lemma processBackup_empty_dump:
  assumes "inspect ext cid = Inr info" and "is_db_image (info_Image info)"
    and "exec_dump ext cid (dump_cmd (info_Image info) (info_Env info)) = Exec_done [] err"
  shows "processBackup ext cid cp w
           = backup_failed ext cid ''Backup timed out''
               (set_file (''backups/'' @ replace_first (info_Name info) ''/'' [] @ ''_''
                            @ show_nat (clock w) @ ''.zip'') (Unfinished [])
                 (updateJobStatus cid Processing ''Step: Executing Dump...''
                   (updateJobStatus cid Processing ''Step: DB Strategy Detected''
                     (updateJobStatus cid Processing ''Step: Inspecting Container...''
                       (set_file (''backups/'' @ replace_first (info_Name info) ''/'' [] @ ''_''
                                    @ show_nat (clock w) @ ''.zip'') (Unfinished [])
                         (updateJobStatus cid Processing ''Identifying...'' w))))))"
  by (simp add: processBackup_def generateBackupFile_def assms(1) Let_def aci_empty_dump [OF assms])


text \<open>
  C7, as claimed: when the dump is empty the error surfaced to the job and to the history
  contains the stderr of the dump command.  With an empty stdout and an error message on
  stderr, the dump step rejects with \<^verbatim>\<open>Empty SQL Dump\<close>, and the job and its history
  entry carry \<^verbatim>\<open>Backup timed out\<close>; neither text contains what was written to
  stderr.
\<close>

theorem empty_dump_message_lacks_stderr:
  "exec_dump failing_dump_ext ''c-db'' (dump_cmd (info_Image pg_info) (info_Env pg_info))
     = Exec_done [] ''pg_dumpall: error: connection to server failed''
   \<and> fst (archiveContainerInternal failing_dump_ext ''c-db'' [] None ([], fresh_world))
       = Some ''Empty SQL Dump''
   \<and> map_option message (getJobStatus (processBackup failing_dump_ext ''c-db'' None fresh_world) ''c-db'')
       = Some (Some ''Backup timed out'')
   \<and> h_message (hd (getHistory (processBackup failing_dump_ext ''c-db'' None fresh_world)))
       = ''Backup timed out''
   \<and> \<not> js_includes ''Backup timed out'' ''pg_dumpall: error: connection to server failed''
   \<and> \<not> js_includes ''Empty SQL Dump'' ''pg_dumpall: error: connection to server failed''"
  by (simp add: failing_dump_ext_def job_defs run_defs getJobStatus_def getHistory_def
      write_history_def read_history_def unshift_bounded_def show_nat.simps split: prod.splits)


text \<open>
  C7, amended.  For a database container whose dump command writes nothing to stdout,
  the dump step rejects with \<^verbatim>\<open>Empty SQL Dump\<close> and appends nothing.  A
  single-container backup of it ends with status \<^verbatim>\<open>failed\<close>, a \<^verbatim>\<open>failed\<close>
  history entry carrying the job's message is written, and the only file left is an
  unfinished archive without entries.  A unified backup of a stack that has the container
  as a member returns a failure, the stack's job ends with status \<^verbatim>\<open>failed\<close> and
  the returned message, and its archive is left unfinished.  Neither kind of job depends
  on what any dump command wrote to stderr.
\<close>

theorem empty_dump_fails_job:
  assumes insp: "inspect ext containerId = Inr info"
    and db: "is_db_image (info_Image info)"
    and ex: "exec_dump ext containerId (dump_cmd (info_Image info) (info_Env info)) = Exec_done [] err"
  shows "fst (archiveContainerInternal ext containerId prefix customPaths aw) = Some ''Empty SQL Dump''
    \<and> fst (snd (archiveContainerInternal ext containerId prefix customPaths aw)) = fst aw
    \<and> map_option status (getJobStatus (processBackup ext containerId customPaths w) containerId)
        = Some Failed
    \<and> h_status (hd (getHistory (processBackup ext containerId customPaths w))) = HFailed
    \<and> map_option message (getJobStatus (processBackup ext containerId customPaths w) containerId)
        = Some (Some (h_message (hd (getHistory (processBackup ext containerId customPaths w)))))
    \<and> backups (processBackup ext containerId customPaths w)
        = (backups w)(''backups/'' @ replace_first (info_Name info) ''/'' [] @ ''_''
                        @ show_nat (clock w) @ ''.zip'' \<mapsto> Unfinished [])
    \<and> (\<forall>cs c. listContainers ext = Inr cs \<and> c \<in> set (stack_containers w stackName cs)
                 \<and> c_Id c = containerId \<longrightarrow>
          (\<exists>m es. fst (triggerUnifiedStackBackup ext stackName w) = Inl m
             \<and> map_option status
                 (getJobStatus (snd (triggerUnifiedStackBackup ext stackName w)) (''stack-'' @ stackName))
                 = Some Failed
             \<and> map_option message
                 (getJobStatus (snd (triggerUnifiedStackBackup ext stackName w)) (''stack-'' @ stackName))
                 = Some (Some m)
             \<and> backups (snd (triggerUnifiedStackBackup ext stackName w))
                 = (backups w)(''backups/stack_'' @ stackName @ ''_'' @ show_nat (clock w) @ ''.zip''
                                 \<mapsto> Unfinished es)))
    \<and> processBackup (with_stderr f ext) containerId customPaths w
        = processBackup ext containerId customPaths w
    \<and> triggerUnifiedStackBackup (with_stderr f ext) stackName w
        = triggerUnifiedStackBackup ext stackName w"
proof -
  note pb = processBackup_empty_dump [OF insp db ex]
  have single:
    "map_option status (getJobStatus (processBackup ext containerId customPaths w) containerId)
        = Some Failed
    \<and> h_status (hd (getHistory (processBackup ext containerId customPaths w))) = HFailed
    \<and> map_option message (getJobStatus (processBackup ext containerId customPaths w) containerId)
        = Some (Some (h_message (hd (getHistory (processBackup ext containerId customPaths w)))))
    \<and> backups (processBackup ext containerId customPaths w)
        = (backups w)(''backups/'' @ replace_first (info_Name info) ''/'' [] @ ''_''
                        @ show_nat (clock w) @ ''.zip'' \<mapsto> Unfinished [])"
    by (simp add: pb backup_failed_def Let_def map_of_globalState_update hd_getHistory_add
        history_entry_def)
  have step: "fst (archiveContainerInternal ext containerId prefix customPaths aw) = Some ''Empty SQL Dump''
    \<and> fst (snd (archiveContainerInternal ext containerId prefix customPaths aw)) = fst aw"
    by (simp add: aci_empty_dump [OF insp db ex])
  have stack: "\<exists>m es. fst (triggerUnifiedStackBackup ext stackName w) = Inl m
             \<and> map_option status
                 (getJobStatus (snd (triggerUnifiedStackBackup ext stackName w)) (''stack-'' @ stackName))
                 = Some Failed
             \<and> map_option message
                 (getJobStatus (snd (triggerUnifiedStackBackup ext stackName w)) (''stack-'' @ stackName))
                 = Some (Some m)
             \<and> backups (snd (triggerUnifiedStackBackup ext stackName w))
                 = (backups w)(''backups/stack_'' @ stackName @ ''_'' @ show_nat (clock w) @ ''.zip''
                                 \<mapsto> Unfinished es)"
    if ls: "listContainers ext = Inr cs" and mem: "c \<in> set (stack_containers w stackName cs)"
      and cid: "c_Id c = containerId" for cs c
  proof -
    have fails: "fst (archiveContainerInternal ext (c_Id c) prefix' None aw') \<noteq> None" for prefix' aw'
      by (simp add: cid aci_empty_dump [OF insp db ex])
    from tusb_member_fails [OF ls mem fails] obtain es where
      t: "triggerUnifiedStackBackup ext stackName w
           = stack_failed (''stack-'' @ stackName) ''Unified Backup timeout''
               (set_file (''backups/stack_'' @ stackName @ ''_'' @ show_nat (clock w) @ ''.zip'')
                  (Unfinished es)
                  (snd (snd (unified_archive ext (''stack-'' @ stackName) stackName
                               (stack_containers w stackName cs)
                               (set_file (''backups/stack_'' @ stackName @ ''_'' @ show_nat (clock w) @ ''.zip'')
                                  (Unfinished [])
                                  (updateJobStatus (''stack-'' @ stackName) Processing
                                     (''Starting Unified Backup for '' @ stackName @ ''...'') w))))))"
      by (elim exE)
    show ?thesis
      apply (rule exI [of _ "''Unified Backup timeout''"])
      apply (rule exI [of _ es])
      apply (simp add: t stack_failed_def map_of_globalState_update unified_archive_def)
      done
  qed
  have members: "\<forall>cs c. listContainers ext = Inr cs \<and> c \<in> set (stack_containers w stackName cs)
                 \<and> c_Id c = containerId \<longrightarrow>
          (\<exists>m es. fst (triggerUnifiedStackBackup ext stackName w) = Inl m
             \<and> map_option status
                 (getJobStatus (snd (triggerUnifiedStackBackup ext stackName w)) (''stack-'' @ stackName))
                 = Some Failed
             \<and> map_option message
                 (getJobStatus (snd (triggerUnifiedStackBackup ext stackName w)) (''stack-'' @ stackName))
                 = Some (Some m)
             \<and> backups (snd (triggerUnifiedStackBackup ext stackName w))
                 = (backups w)(''backups/stack_'' @ stackName @ ''_'' @ show_nat (clock w) @ ''.zip''
                                 \<mapsto> Unfinished es))"
    by (intro allI impI, elim conjE, rule stack)
  show ?thesis
    apply (intro conjI)
            apply (rule step [THEN conjunct1])
           apply (rule step [THEN conjunct2])
          apply (rule single [THEN conjunct1])
         apply (rule single [THEN conjunct2, THEN conjunct1])
        apply (rule single [THEN conjunct2, THEN conjunct2, THEN conjunct1])
       apply (rule single [THEN conjunct2, THEN conjunct2, THEN conjunct2])
      apply (rule members)
     apply (rule processBackup_stderr)
    apply (rule tusb_stderr)
    done
qed


theorem empty_dump_fails_job_witness:
  "inspect failing_dump_ext ''c-db'' = Inr pg_info
   \<and> is_db_image (info_Image pg_info)
   \<and> exec_dump failing_dump_ext ''c-db'' (dump_cmd (info_Image pg_info) (info_Env pg_info))
       = Exec_done [] ''pg_dumpall: error: connection to server failed''
   \<and> fst (archiveContainerInternal failing_dump_ext ''c-db'' [] None ([], fresh_world))
       = Some ''Empty SQL Dump''
   \<and> map_option status (getJobStatus (processBackup failing_dump_ext ''c-db'' None fresh_world) ''c-db'')
       = Some Failed
   \<and> h_status (hd (getHistory (processBackup failing_dump_ext ''c-db'' None fresh_world))) = HFailed
   \<and> backups (processBackup failing_dump_ext ''c-db'' None fresh_world) ''backups/db_1700000000000.zip''
       = Some (Unfinished [])
   \<and> listContainers failing_dump_ext = Inr shop_containers
   \<and> shop_containers ! 1 \<in> set (stack_containers fresh_world ''shop'' shop_containers)
   \<and> c_Id (shop_containers ! 1) = ''c-db''
   \<and> (\<exists>m. fst (triggerUnifiedStackBackup failing_dump_ext ''shop'' fresh_world) = Inl m)
   \<and> map_option status
         (getJobStatus (snd (triggerUnifiedStackBackup failing_dump_ext ''shop'' fresh_world)) ''stack-shop'')
       = Some Failed"
proof -
  have i: "inspect failing_dump_ext ''c-db'' = Inr pg_info"
    by (simp add: failing_dump_ext_def demo_ext_def)
  have d: "is_db_image (info_Image pg_info)"
    by (simp add: pg_info_def is_db_image_def startsWith_def)
  have e: "exec_dump failing_dump_ext ''c-db'' (dump_cmd (info_Image pg_info) (info_Env pg_info))
             = Exec_done [] ''pg_dumpall: error: connection to server failed''"
    by (simp add: failing_dump_ext_def)
  have n: "''backups/'' @ replace_first (info_Name pg_info) ''/'' [] @ ''_''
             @ show_nat (clock fresh_world) @ ''.zip'' = ''backups/db_1700000000000.zip''"
    by (simp add: pg_info_def fresh_world_def startsWith_def show_nat.simps)
  have l: "listContainers failing_dump_ext = Inr shop_containers"
    by (simp add: failing_dump_ext_def demo_ext_def)
  have m: "shop_containers ! 1 \<in> set (stack_containers fresh_world ''shop'' shop_containers)"
    by (simp add: stack_containers_def shop_containers_def)
  have c: "c_Id (shop_containers ! 1) = ''c-db''" by (simp add: shop_containers_def)
  have v: "''stack-'' @ ''shop'' = ''stack-shop''" by simp
  note t = empty_dump_fails_job [OF i d e, of "[]" None "([], fresh_world)" fresh_world "''shop''"]
  from t have single:
    "fst (archiveContainerInternal failing_dump_ext ''c-db'' [] None ([], fresh_world))
       = Some ''Empty SQL Dump''"
    "map_option status (getJobStatus (processBackup failing_dump_ext ''c-db'' None fresh_world) ''c-db'')
       = Some Failed"
    "h_status (hd (getHistory (processBackup failing_dump_ext ''c-db'' None fresh_world))) = HFailed"
    "backups (processBackup failing_dump_ext ''c-db'' None fresh_world) ''backups/db_1700000000000.zip''
       = Some (Unfinished [])"
    unfolding n by simp_all
  note members = t [THEN conjunct2, THEN conjunct2, THEN conjunct2, THEN conjunct2,
                     THEN conjunct2, THEN conjunct2, THEN conjunct1, rule_format,
                     of shop_containers "shop_containers ! 1"]
  from members [OF conjI [OF l conjI [OF m c]]]
  have "\<exists>m es. fst (triggerUnifiedStackBackup failing_dump_ext ''shop'' fresh_world) = Inl m
       \<and> map_option status
           (getJobStatus (snd (triggerUnifiedStackBackup failing_dump_ext ''shop'' fresh_world))
              (''stack-'' @ ''shop''))
           = Some Failed
       \<and> map_option message
           (getJobStatus (snd (triggerUnifiedStackBackup failing_dump_ext ''shop'' fresh_world))
              (''stack-'' @ ''shop''))
           = Some (Some m)
       \<and> backups (snd (triggerUnifiedStackBackup failing_dump_ext ''shop'' fresh_world))
           = (backups fresh_world)
               (''backups/stack_'' @ ''shop'' @ ''_'' @ show_nat (clock fresh_world) @ ''.zip''
                  \<mapsto> Unfinished es)" .
  then obtain msg where
    s1: "fst (triggerUnifiedStackBackup failing_dump_ext ''shop'' fresh_world) = Inl msg"
    and s2: "map_option status
       (getJobStatus (snd (triggerUnifiedStackBackup failing_dump_ext ''shop'' fresh_world))
          (''stack-'' @ ''shop''))
       = Some Failed"
    by (elim exE conjE)
  from s1 have stack1:
    "\<exists>m. fst (triggerUnifiedStackBackup failing_dump_ext ''shop'' fresh_world) = Inl m"
    by (rule exI)
  from s2 have stack2:
    "map_option status
       (getJobStatus (snd (triggerUnifiedStackBackup failing_dump_ext ''shop'' fresh_world)) ''stack-shop'')
       = Some Failed"
    unfolding v .
  show ?thesis
    apply (intro conjI)
    apply (rule i d e single l m c stack1 stack2)+
    done
qed


section \<open>A failed upload\<close>

text \<open>
  C10.  With a Telegram token and chat id configured, an artifact on disk and an upload
  that fails with message \<open>m\<close>, \<^verbatim>\<open>handleUpload\<close> returns normally; the job's last
  status is \<^verbatim>\<open>completed\<close> with message \<^verbatim>\<open>Saved Local (Telegram Failed)\<close>; the
  newest history entry has status \<^verbatim>\<open>failed\<close>, destination \<^verbatim>\<open>local\<close> and the
  message \<^verbatim>\<open>Telegram upload failed: \<close> followed by \<open>m\<close>; and the files on disk
  are as before.
\<close>

theorem telegram_failure_keeps_artifact:
  assumes tok: "truthy (TELEGRAM_TOKEN ext)" and chat: "truthy (CHAT_ID ext)"
    and present: "backups w filePath = Some f"
    and err: "upload_error (sendDocument ext (basename filePath)) = Some m"
  shows "fst (handleUpload ext jid filePath w) = None
    \<and> getJobStatus (snd (handleUpload ext jid filePath w)) jid
        = Some \<lparr>status = Completed, message = Some ''Saved Local (Telegram Failed)'',
                 lastUpdated = clock w\<rparr>
    \<and> h_status (hd (getHistory (snd (handleUpload ext jid filePath w)))) = HFailed
    \<and> h_destination (hd (getHistory (snd (handleUpload ext jid filePath w)))) = DLocal
    \<and> h_message (hd (getHistory (snd (handleUpload ext jid filePath w))))
        = ''Telegram upload failed: '' @ m
    \<and> backups (snd (handleUpload ext jid filePath w)) = backups w"
  using assms
  by (simp add: handleUpload_def Let_def map_of_globalState_update hd_getHistory_add
      history_entry_def)


theorem telegram_failure_keeps_artifact_witness:
  "truthy (TELEGRAM_TOKEN telegram_ext) \<and> truthy (CHAT_ID telegram_ext)
   \<and> backups (set_file ''backups/nginx-1_1700000000000.zip'' (Finalized []) fresh_world)
        ''backups/nginx-1_1700000000000.zip'' = Some (Finalized [])
   \<and> upload_error (sendDocument telegram_ext (basename ''backups/nginx-1_1700000000000.zip''))
       = Some ''Telegram Upload Failed: 403 Forbidden''
   \<and> getJobStatus (snd (handleUpload telegram_ext ''c-nginx'' ''backups/nginx-1_1700000000000.zip''
                          (set_file ''backups/nginx-1_1700000000000.zip'' (Finalized []) fresh_world)))
        ''c-nginx''
       = Some \<lparr>status = Completed, message = Some ''Saved Local (Telegram Failed)'',
                lastUpdated = 1700000000000\<rparr>
   \<and> h_message (hd (getHistory (snd (handleUpload telegram_ext ''c-nginx''
                          ''backups/nginx-1_1700000000000.zip''
                          (set_file ''backups/nginx-1_1700000000000.zip'' (Finalized []) fresh_world)))))
       = ''Telegram upload failed: Telegram Upload Failed: 403 Forbidden''
   \<and> backups (snd (handleUpload telegram_ext ''c-nginx'' ''backups/nginx-1_1700000000000.zip''
                      (set_file ''backups/nginx-1_1700000000000.zip'' (Finalized []) fresh_world)))
        ''backups/nginx-1_1700000000000.zip'' = Some (Finalized [])"
proof -
  let ?p = "''backups/nginx-1_1700000000000.zip''"
  let ?w = "set_file ?p (Finalized []) fresh_world"
  have t: "truthy (TELEGRAM_TOKEN telegram_ext)" and c: "truthy (CHAT_ID telegram_ext)"
    by (simp_all add: telegram_ext_def truthy_def)
  have f: "backups ?w ?p = Some (Finalized [])" by simp
  have u: "upload_error (sendDocument telegram_ext (basename ?p))
             = Some ''Telegram Upload Failed: 403 Forbidden''"
    by (simp add: telegram_ext_def demo_ext_def upload_error_def)
  have k: "clock ?w = 1700000000000" by (simp add: fresh_world_def)
  from telegram_failure_keeps_artifact [OF t c f u, of "''c-nginx''"] t c f u k
  show ?thesis by simp
qed


section \<open>Volumes and the clean state before a stack restore\<close>

lemma find_by_id:
  "distinct (map ec_Id cs) \<Longrightarrow> e \<in> set cs \<Longrightarrow> find (\<lambda>c. ec_Id c = ec_Id e) cs = Some e"
  by (induction cs) (auto simp: image_iff)

lemma filter_id_is_filter_neq:
  "distinct (map ec_Id cs) \<Longrightarrow> e \<in> set cs
     \<Longrightarrow> filter (\<lambda>c. ec_Id c \<noteq> ec_Id e) cs = filter (\<lambda>c. c \<noteq> e) cs"
  by (rule filter_cong) (auto simp: distinct_map inj_on_def)

lemma filter_after_mark:
  "filter (\<lambda>c. ec_Id c \<noteq> cid) (map (\<lambda>c'. if ec_Id c' = cid then c'\<lparr>ec_running := False\<rparr> else c') cs)
     = filter (\<lambda>c. ec_Id c \<noteq> cid) cs"
  by (induction cs) auto

lemma find_after_mark:
  "find (\<lambda>c. ec_Id c = cid) cs = Some e
     \<Longrightarrow> find (\<lambda>c. ec_Id c = cid)
           (map (\<lambda>c'. if ec_Id c' = cid then c'\<lparr>ec_running := False\<rparr> else c') cs)
         = Some (e\<lparr>ec_running := False\<rparr>)"
  by (induction cs) (auto split: if_splits)

lemma stop_and_remove_running:
  assumes d: "distinct (map ec_Id (host_containers h))" and e: "e \<in> set (host_containers h)"
    and r: "ec_running e"
  shows "stop_and_remove h e =
           h\<lparr>host_containers := filter (\<lambda>c. c \<noteq> e) (host_containers h),
             host_volumes :=
               filter (\<lambda>vol. \<not> (ev_anonymous vol \<and> ev_name vol \<in> set (ec_mounts e)
                                 \<and> \<not> mounted_by (filter (\<lambda>c. c \<noteq> e) (host_containers h)) vol))
                      (host_volumes h),
             host_requests := host_requests h @ requests_for e\<rparr>"
proof -
  note f = find_by_id [OF d e]
  show ?thesis
    using r
    by (simp add: stop_and_remove_def received_def engine_stop_def engine_remove_def f
        find_after_mark [OF f] filter_after_mark filter_id_is_filter_neq [OF d e]
        doomed_volume_def requests_for_def Let_def)
qed

lemma stop_and_remove_stopped:
  assumes d: "distinct (map ec_Id (host_containers h))" and e: "e \<in> set (host_containers h)"
    and r: "\<not> ec_running e"
  shows "stop_and_remove h e = h\<lparr>host_requests := host_requests h @ [Stop (ec_Id e) 10]\<rparr>"
  using r by (simp add: stop_and_remove_def received_def engine_stop_def find_by_id [OF d e] Let_def)


lemma stop_and_remove_step:
  assumes d: "distinct (map ec_Id (host_containers h))" and e: "e \<in> set (host_containers h)"
  shows "host_containers (stop_and_remove h e)
           = filter (\<lambda>c. \<not> (c = e \<and> ec_running c)) (host_containers h)"
    and "host_volumes (stop_and_remove h e)
           = filter (\<lambda>vol. \<not> (ec_running e \<and> ev_anonymous vol \<and> ev_name vol \<in> set (ec_mounts e)
                              \<and> \<not> mounted_by (host_containers (stop_and_remove h e)) vol))
                    (host_volumes h)"
    and "host_requests (stop_and_remove h e)
           = host_requests h @ (if ec_running e then requests_for e else [Stop (ec_Id e) 10])"
    and "host_list_error (stop_and_remove h e) = host_list_error h"
proof -
  have keep: "filter (\<lambda>c. \<not> (c = e \<and> ec_running c)) (host_containers h) = host_containers h"
    if "\<not> ec_running e"
    using that by (auto intro: filter_True)
  have drop: "filter (\<lambda>c. \<not> (c = e \<and> ec_running c)) (host_containers h)
                = filter (\<lambda>c. c \<noteq> e) (host_containers h)"
    if "ec_running e"
    using that by (auto intro: filter_cong)
  show "host_containers (stop_and_remove h e)
           = filter (\<lambda>c. \<not> (c = e \<and> ec_running c)) (host_containers h)"
    by (cases "ec_running e")
       (simp_all add: stop_and_remove_running [OF d e] stop_and_remove_stopped [OF d e] keep drop)
  show "host_volumes (stop_and_remove h e)
           = filter (\<lambda>vol. \<not> (ec_running e \<and> ev_anonymous vol \<and> ev_name vol \<in> set (ec_mounts e)
                              \<and> \<not> mounted_by (host_containers (stop_and_remove h e)) vol))
                    (host_volumes h)"
    by (cases "ec_running e")
       (simp_all add: stop_and_remove_running [OF d e] stop_and_remove_stopped [OF d e])
  show "host_requests (stop_and_remove h e)
           = host_requests h @ (if ec_running e then requests_for e else [Stop (ec_Id e) 10])"
    by (cases "ec_running e")
       (simp_all add: stop_and_remove_running [OF d e] stop_and_remove_stopped [OF d e])
  show "host_list_error (stop_and_remove h e) = host_list_error h"
    by (cases "ec_running e")
       (simp_all add: stop_and_remove_running [OF d e] stop_and_remove_stopped [OF d e])
qed

lemma foldl_stop_and_remove:
  assumes "distinct (map ec_Id (host_containers h))" and "set es \<subseteq> set (host_containers h)"
    and "distinct es"
  shows "host_containers (foldl stop_and_remove h es)
           = filter (\<lambda>c. \<not> (c \<in> set es \<and> ec_running c)) (host_containers h)
       \<and> host_volumes (foldl stop_and_remove h es)
           = filter (\<lambda>vol. \<not> (ev_anonymous vol \<and> mounted_by (filter ec_running es) vol
                              \<and> \<not> mounted_by (host_containers (foldl stop_and_remove h es)) vol))
                    (host_volumes h)
       \<and> host_requests (foldl stop_and_remove h es)
           = host_requests h
             @ concat (map (\<lambda>c. if ec_running c then requests_for c else [Stop (ec_Id c) 10]) es)"
  using assms
proof (induction es arbitrary: h)
  case Nil
  then show ?case by (simp add: mounted_by_def)
next
  case (Cons e es)
  let ?h1 = "stop_and_remove h e"
  let ?hf = "foldl stop_and_remove ?h1 es"
  from Cons.prems have e: "e \<in> set (host_containers h)" by simp
  note st = stop_and_remove_step [OF Cons.prems(1) e]
  have d1: "distinct (map ec_Id (host_containers ?h1))"
    using Cons.prems(1) by (simp add: st(1) distinct_map_filter)
  have sub1: "set es \<subseteq> set (host_containers ?h1)"
    using Cons.prems(2,3) by (auto simp: st(1))
  have des: "distinct es" using Cons.prems(3) by simp
  from Cons.IH [OF d1 sub1 des] have
    c: "host_containers ?hf = filter (\<lambda>c. \<not> (c \<in> set es \<and> ec_running c)) (host_containers ?h1)"
    and v: "host_volumes ?hf
              = filter (\<lambda>vol. \<not> (ev_anonymous vol \<and> mounted_by (filter ec_running es) vol
                                 \<and> \<not> mounted_by (host_containers ?hf) vol))
                       (host_volumes ?h1)"
    and q: "host_requests ?hf
              = host_requests ?h1
                @ concat (map (\<lambda>c. if ec_running c then requests_for c else [Stop (ec_Id c) 10]) es)"
    by simp_all
  have c': "host_containers ?hf
              = filter (\<lambda>c. \<not> (c \<in> set (e # es) \<and> ec_running c)) (host_containers h)"
    unfolding c st(1) by (auto intro: filter_cong)
  have split1: "mounted_by (host_containers ?h1) vol
                  \<longleftrightarrow> mounted_by (host_containers ?hf) vol \<or> mounted_by (filter ec_running es) vol"
    for vol
    using sub1 unfolding c mounted_by_def by auto
  have v': "host_volumes ?hf
              = filter (\<lambda>vol. \<not> (ev_anonymous vol \<and> mounted_by (filter ec_running (e # es)) vol
                                 \<and> \<not> mounted_by (host_containers ?hf) vol))
                       (host_volumes h)"
    unfolding v st(2) filter_filter
  proof (rule filter_cong [OF refl])
    fix vol
    show "(\<not> (ec_running e \<and> ev_anonymous vol \<and> ev_name vol \<in> set (ec_mounts e)
               \<and> \<not> mounted_by (host_containers ?h1) vol)
           \<and> \<not> (ev_anonymous vol \<and> mounted_by (filter ec_running es) vol
                 \<and> \<not> mounted_by (host_containers ?hf) vol))
          = (\<not> (ev_anonymous vol \<and> mounted_by (filter ec_running (e # es)) vol
                 \<and> \<not> mounted_by (host_containers ?hf) vol))"
      unfolding split1 [of vol] by (auto simp: mounted_by_def)
  qed
  have q': "host_requests ?hf
              = host_requests h
                @ concat (map (\<lambda>c. if ec_running c then requests_for c else [Stop (ec_Id c) 10]) (e # es))"
    unfolding q st(3) by simp
  show ?case using c' v' q' by simp
qed


lemma stop_and_remove_named_volumes:
  "named_volumes (stop_and_remove h c) = named_volumes h"
proof -
  have keep: "filter (\<lambda>vol. \<not> doomed_volume v c' others vol \<and> \<not> ev_anonymous vol) vs
                = filter (\<lambda>vol. \<not> ev_anonymous vol) vs" for v c' others vs
    by (rule filter_cong [OF refl]) (auto simp: doomed_volume_def)
  show ?thesis
    by (auto simp: stop_and_remove_def received_def engine_stop_def engine_remove_def
        named_volumes_def keep Let_def split: option.splits sum.splits if_splits)
qed

lemma foldl_stop_and_remove_named_volumes:
  "named_volumes (foldl stop_and_remove h es) = named_volumes h"
  by (induction es arbitrary: h) (simp_all add: stop_and_remove_named_volumes)

lemma stack_members_facts:
  assumes "distinct (map ec_Id (host_containers h))"
  shows "set (stack_members sn h) \<subseteq> set (host_containers h)"
    and "distinct (stack_members sn h)"
  using assms by (auto simp: stack_members_def distinct_map)


text \<open>
  C6, as claimed: the cleanup removes container objects only and deletes no volume.  On a
  host where the database container of the stack mounts a named volume and an anonymous
  one, the cleanup of the stack deletes the anonymous volume.
\<close>

theorem cleanup_deletes_anonymous_volume:
  "host_volumes shop_host
     = [\<lparr>ev_name = ''shop_pgdata'', ev_anonymous = False\<rparr>,
        \<lparr>ev_name = ''4f1c9a'', ev_anonymous = True\<rparr>,
        \<lparr>ev_name = ''blog_data'', ev_anonymous = False\<rparr>,
        \<lparr>ev_name = ''77aa01'', ev_anonymous = True\<rparr>]
   \<and> host_volumes (clean_existing_stack ''shop'' shop_host)
     = [\<lparr>ev_name = ''shop_pgdata'', ev_anonymous = False\<rparr>,
        \<lparr>ev_name = ''blog_data'', ev_anonymous = False\<rparr>,
        \<lparr>ev_name = ''77aa01'', ev_anonymous = True\<rparr>]"
  by (simp add: clean_existing_stack_def stack_members_def shop_host_def stop_and_remove_def
      received_def engine_stop_def engine_remove_def doomed_volume_def mounted_by_def Let_def)


text \<open>
  C6, amended.  The cleanup before a stack restore leaves every named volume of the host
  in place and, the container ids of the host being distinct, leaves the containers of
  other projects as they were.  When the listing succeeds and the containers of the stack
  are running, it sends for each of them, in the order of the listing, a stop request and
  then a remove request with \<^verbatim>\<open>v: true\<close> and \<^verbatim>\<open>force: true\<close>; afterwards the
  containers of the host are those of the other projects, and the volumes of the host are
  those it had except the anonymous volumes that a container of the stack mounted and no
  remaining container mounts.
\<close>

theorem cleanup_removes_stack_containers:
  "named_volumes (clean_existing_stack stackName h) = named_volumes h
   \<and> (distinct (map ec_Id (host_containers h)) \<longrightarrow>
        other_containers stackName (clean_existing_stack stackName h) = other_containers stackName h
      \<and> (host_list_error h = None \<and> (\<forall>c \<in> set (stack_members stackName h). ec_running c) \<longrightarrow>
           host_containers (clean_existing_stack stackName h) = other_containers stackName h
         \<and> host_volumes (clean_existing_stack stackName h)
             = filter (\<lambda>vol. \<not> (ev_anonymous vol \<and> mounted_by (stack_members stackName h) vol
                                \<and> \<not> mounted_by (other_containers stackName h) vol))
                      (host_volumes h)
         \<and> host_requests (clean_existing_stack stackName h)
             = host_requests h @ concat (map requests_for (stack_members stackName h))))"
proof (intro conjI impI)
  show "named_volumes (clean_existing_stack stackName h) = named_volumes h"
    by (simp add: clean_existing_stack_def foldl_stop_and_remove_named_volumes split: option.splits)
next
  assume d: "distinct (map ec_Id (host_containers h))"
  let ?es = "stack_members stackName h"
  note fold = foldl_stop_and_remove [OF d stack_members_facts [OF d, of stackName]]
  have cs: "host_containers (foldl stop_and_remove h ?es)
              = filter (\<lambda>c. \<not> (c \<in> set ?es \<and> ec_running c)) (host_containers h)"
    using fold by simp
  have "filter (\<lambda>c. ec_project c \<noteq> Some stackName)
          (filter (\<lambda>c. \<not> (c \<in> set ?es \<and> ec_running c)) (host_containers h))
        = filter (\<lambda>c. ec_project c \<noteq> Some stackName) (host_containers h)"
    unfolding filter_filter by (rule filter_cong) (auto simp: stack_members_def)
  then show "other_containers stackName (clean_existing_stack stackName h)
               = other_containers stackName h"
    by (simp add: clean_existing_stack_def other_containers_def cs split: option.splits)
  assume a: "host_list_error h = None \<and> (\<forall>c \<in> set ?es. ec_running c)"
  then have run: "filter ec_running ?es = ?es" by (auto intro: filter_True)
  have cl: "clean_existing_stack stackName h = foldl stop_and_remove h ?es"
    using a by (simp add: clean_existing_stack_def)
  have eq: "\<forall>c \<in> set (host_containers h).
          (\<not> (c \<in> set ?es \<and> ec_running c)) = (ec_project c \<noteq> Some stackName)"
    using a by (auto simp: stack_members_def)
  have all: "filter (\<lambda>c. \<not> (c \<in> set ?es \<and> ec_running c)) (host_containers h)
               = other_containers stackName h"
    unfolding other_containers_def
  proof (rule filter_cong [OF refl])
    fix c assume "c \<in> set (host_containers h)"
    with eq show "(\<not> (c \<in> set ?es \<and> ec_running c)) = (ec_project c \<noteq> Some stackName)"
      by (rule bspec)
  qed
  show c1: "host_containers (clean_existing_stack stackName h) = other_containers stackName h"
    by (simp only: cl cs all)
  have "host_volumes (foldl stop_and_remove h ?es)
          = filter (\<lambda>vol. \<not> (ev_anonymous vol \<and> mounted_by (filter ec_running ?es) vol
                             \<and> \<not> mounted_by (host_containers (foldl stop_and_remove h ?es)) vol))
                   (host_volumes h)"
    using fold by simp
  then show "host_volumes (clean_existing_stack stackName h)
               = filter (\<lambda>vol. \<not> (ev_anonymous vol \<and> mounted_by ?es vol
                                  \<and> \<not> mounted_by (other_containers stackName h) vol))
                        (host_volumes h)"
    unfolding run cl [symmetric] c1 by simp
  have "concat (map (\<lambda>c. if ec_running c then requests_for c else [Stop (ec_Id c) 10]) ?es)
          = concat (map requests_for ?es)"
    using a by (auto intro!: arg_cong [where f = concat] map_cong)
  then show "host_requests (clean_existing_stack stackName h)
               = host_requests h @ concat (map requests_for ?es)"
    using fold by (simp add: cl)
qed


theorem cleanup_removes_stack_containers_witness:
  "distinct (map ec_Id (host_containers shop_host))
   \<and> host_list_error shop_host = None
   \<and> map ec_running (stack_members ''shop'' shop_host) = [True]
   \<and> named_volumes (clean_existing_stack ''shop'' shop_host)
       = [\<lparr>ev_name = ''shop_pgdata'', ev_anonymous = False\<rparr>,
          \<lparr>ev_name = ''blog_data'', ev_anonymous = False\<rparr>]
   \<and> host_containers (clean_existing_stack ''shop'' shop_host)
       = [\<lparr>ec_Id = ''c-blog'', ec_project = Some ''blog'', ec_running = True,
           ec_mounts = [''blog_data'', ''77aa01'']\<rparr>]
   \<and> host_volumes (clean_existing_stack ''shop'' shop_host)
       = [\<lparr>ev_name = ''shop_pgdata'', ev_anonymous = False\<rparr>,
          \<lparr>ev_name = ''blog_data'', ev_anonymous = False\<rparr>,
          \<lparr>ev_name = ''77aa01'', ev_anonymous = True\<rparr>]
   \<and> host_requests (clean_existing_stack ''shop'' shop_host)
       = [Stop ''c-db'' 10, Remove ''c-db'' True True]"
proof -
  have d: "distinct (map ec_Id (host_containers shop_host))" by (simp add: shop_host_def)
  have l: "host_list_error shop_host = None" by (simp add: shop_host_def)
  have m: "stack_members ''shop'' shop_host
             = [\<lparr>ec_Id = ''c-db'', ec_project = Some ''shop'', ec_running = True,
                 ec_mounts = [''shop_pgdata'', ''4f1c9a'']\<rparr>]"
    by (simp add: stack_members_def shop_host_def)
  have r: "\<forall>c \<in> set (stack_members ''shop'' shop_host). ec_running c" by (simp add: m)
  have n: "named_volumes shop_host
             = [\<lparr>ev_name = ''shop_pgdata'', ev_anonymous = False\<rparr>,
                \<lparr>ev_name = ''blog_data'', ev_anonymous = False\<rparr>]"
    by (simp add: named_volumes_def shop_host_def)
  have o: "other_containers ''shop'' shop_host
             = [\<lparr>ec_Id = ''c-blog'', ec_project = Some ''blog'', ec_running = True,
                 ec_mounts = [''blog_data'', ''77aa01'']\<rparr>]"
    by (simp add: other_containers_def shop_host_def)
  have v: "filter (\<lambda>vol. \<not> (ev_anonymous vol \<and> mounted_by (stack_members ''shop'' shop_host) vol
                            \<and> \<not> mounted_by (other_containers ''shop'' shop_host) vol))
                  (host_volumes shop_host)
             = [\<lparr>ev_name = ''shop_pgdata'', ev_anonymous = False\<rparr>,
                \<lparr>ev_name = ''blog_data'', ev_anonymous = False\<rparr>,
                \<lparr>ev_name = ''77aa01'', ev_anonymous = True\<rparr>]"
    unfolding m o by (simp add: shop_host_def mounted_by_def)
  have q: "host_requests shop_host @ concat (map requests_for (stack_members ''shop'' shop_host))
             = [Stop ''c-db'' 10, Remove ''c-db'' True True]"
    unfolding m by (simp add: shop_host_def requests_for_def)
  from cleanup_removes_stack_containers [of "''shop''" shop_host] d l r
  have A: "named_volumes (clean_existing_stack ''shop'' shop_host) = named_volumes shop_host"
    and B: "host_containers (clean_existing_stack ''shop'' shop_host)
              = other_containers ''shop'' shop_host"
    and C: "host_volumes (clean_existing_stack ''shop'' shop_host)
              = filter (\<lambda>vol. \<not> (ev_anonymous vol \<and> mounted_by (stack_members ''shop'' shop_host) vol
                                 \<and> \<not> mounted_by (other_containers ''shop'' shop_host) vol))
                       (host_volumes shop_host)"
    and D: "host_requests (clean_existing_stack ''shop'' shop_host)
              = host_requests shop_host @ concat (map requests_for (stack_members ''shop'' shop_host))"
    by simp_all
  have r': "map ec_running (stack_members ''shop'' shop_host) = [True]" by (simp add: m)
  show ?thesis
    using d l r' A [unfolded n] B [unfolded o] C [unfolded v] D [unfolded q] by simp
qed



end
